theory Spec2Isabelle
  imports Complex_Main "HOL-Library.AList"
begin

section \<open>The signaling server of \<^verbatim>\<open>src/server/routes.ts\<close>\<close>

text \<open>
  The WebSocket part of \<^verbatim>\<open>registerRoutes\<close>: the \<^verbatim>\<open>clients\<close> map, \<^verbatim>\<open>generateId\<close>,
  \<^verbatim>\<open>getMonitors\<close>, \<^verbatim>\<open>getCameras\<close>, and the \<^verbatim>\<open>message\<close> and \<^verbatim>\<open>close\<close> handlers that
  \<^verbatim>\<open>wss.on("connection")\<close> installs on every socket. Handlers run to completion one after
  the other, so the server is a function from a state and an event to the next state.
\<close>

subsection \<open>Values produced by \<^verbatim>\<open>JSON.parse\<close>\<close>

text \<open>
  A number parsed from JSON is a double that is not NaN: a finite value, or an infinity
  when the literal overflows. The handlers test a number for truthiness and print it in
  log lines, nothing else.
\<close>

datatype jsnum = Finite rat | PosInfinity | NegInfinity

text \<open>
  \<open>JObj\<close> lists the own properties of a parsed object in order, each key once. A property
  that is absent reads as \<^verbatim>\<open>undefined\<close>, which is \<open>None\<close> below; \<^verbatim>\<open>undefined\<close> never
  occurs inside a parsed value.
\<close>

datatype json =
    JNull
  | JBool bool
  | JNum jsnum
  | JStr string
  | JArr "json list"
  | JObj "(string \<times> json) list"

text \<open>
  \<^verbatim>\<open>msg.k\<close> for the property names the handlers read (\<^verbatim>\<open>type\<close>, \<^verbatim>\<open>role\<close>, \<^verbatim>\<open>name\<close>,
  \<^verbatim>\<open>targetId\<close>, \<^verbatim>\<open>fromId\<close>, \<^verbatim>\<open>offer\<close>, \<^verbatim>\<open>answer\<close>, \<^verbatim>\<open>candidate\<close>, \<^verbatim>\<open>cameraName\<close>): none of
  them is inherited by a boolean, number, string or array, so only an object can have
  them. Reading a property of \<^verbatim>\<open>null\<close> throws; the handler below raises before it gets
  here.
\<close>

fun js_prop :: "json \<Rightarrow> string \<Rightarrow> json option" where
  "js_prop (JObj ps) k = map_of ps k"
| "js_prop _ k = None"

text \<open>JavaScript truthiness, as \<^verbatim>\<open>||\<close> and \<^verbatim>\<open>if\<close> test it.\<close>

fun truthy :: "json option \<Rightarrow> bool" where
  "truthy None = False"
| "truthy (Some JNull) = False"
| "truthy (Some (JBool b)) = b"
| "truthy (Some (JNum n)) = (n \<noteq> Finite 0)"
| "truthy (Some (JStr s)) = (s \<noteq> [])"
| "truthy (Some (JArr xs)) = True"
| "truthy (Some (JObj ps)) = True"

text \<open>\<^verbatim>\<open>x || d\<close> where \<open>d\<close> is a defined value.\<close>

definition or_else :: "json option \<Rightarrow> json \<Rightarrow> json" where
  "or_else x d = (case x of None \<Rightarrow> d | Some v \<Rightarrow> if truthy x then v else d)"

subsection \<open>String conversion in log lines\<close>

text \<open>
  The log lines are template literals, and a substitution \<^verbatim>\<open>${v}\<close> converts \<open>v\<close> to a string
  before \<^verbatim>\<open>console.log\<close> is called. For a value that \<^verbatim>\<open>JSON.parse\<close> produced, the
  conversion throws a TypeError exactly when it reaches an object with an own property
  \<^verbatim>\<open>toString\<close>: that property is not callable, and the inherited \<^verbatim>\<open>valueOf\<close> returns the
  object itself, so no primitive is found. An array is converted by \<^verbatim>\<open>join\<close>, which converts
  its elements; every other value converts. \<^verbatim>\<open>undefined\<close> converts too.
\<close>

fun to_string_ok :: "json \<Rightarrow> bool" where
  "to_string_ok (JArr xs) = list_all to_string_ok xs"
| "to_string_ok (JObj ps) = (''toString'' \<notin> fst ` set ps)"
| "to_string_ok v = True"

definition printable :: "json option \<Rightarrow> bool" where
  "printable x = (case x of None \<Rightarrow> True | Some v \<Rightarrow> to_string_ok v)"

subsection \<open>Data model\<close>

text \<open>A socket handle (the \<^verbatim>\<open>ws\<close> object of one connection).\<close>

type_synonym socket = nat

text \<open>
  \<^verbatim>\<open>interface Client\<close>. The role is whatever \<^verbatim>\<open>msg.role\<close> was: the type annotation is
  erased at run time and nothing validates it.
\<close>

record client =
  id_c :: string
  role :: "json option"
  name :: json
  ws :: socket

text \<open>
  The object literal handed to \<^verbatim>\<open>JSON.stringify\<close> for sending: its members in order. A
  member whose value is \<^verbatim>\<open>undefined\<close> (\<open>None\<close>) is left out of the text by
  \<^verbatim>\<open>JSON.stringify\<close>.
\<close>

type_synonym obj = "(string \<times> json option) list"

datatype error = SyntaxError | TypeError

text \<open>
  The state shared by all connections: \<^verbatim>\<open>clients\<close> is the \<^verbatim>\<open>Map\<close>, kept in insertion
  order as an association list (\<^verbatim>\<open>set\<close> of a present key replaces the value in place,
  which is \<^const>\<open>AList.update\<close>; \<^verbatim>\<open>delete\<close> is \<^const>\<open>AList.delete\<close>; \<^verbatim>\<open>get\<close> is
  \<^const>\<open>map_of\<close>). \<open>outbox\<close> records every \<^verbatim>\<open>send\<close> call in order, \<open>errlog\<close> every
  \<^verbatim>\<open>console.error\<close> call.
\<close>

record server =
  clients :: "(string \<times> client) list"
  outbox :: "(socket \<times> obj) list"
  errlog :: "error list"

definition send :: "socket \<Rightarrow> obj \<Rightarrow> server \<Rightarrow> server" where
  "send w m s = s\<lparr>outbox := outbox s @ [(w, m)]\<rparr>"

definition console_error :: "error \<Rightarrow> server \<Rightarrow> server" where
  "console_error e s = s\<lparr>errlog := errlog s @ [e]\<rparr>"

subsection \<open>\<^verbatim>\<open>generateId\<close>\<close>

definition digit36 :: "nat \<Rightarrow> char" where
  "digit36 d = ''0123456789abcdefghijklmnopqrstuvwxyz'' ! d"

text \<open>\<^verbatim>\<open>n.toString(36)\<close> for a non-negative integer.\<close>

function toString36 :: "nat \<Rightarrow> string" where
  "toString36 n = (if n < 36 then [digit36 n] else toString36 (n div 36) @ [digit36 (n mod 36)])"
  by pat_completeness auto
termination
  by (relation "measure (\<lambda>n. n)") auto

text \<open>\<^verbatim>\<open>s.substr(start, len)\<close> for non-negative arguments.\<close>

definition substr :: "string \<Rightarrow> nat \<Rightarrow> nat \<Rightarrow> string" where
  "substr s start len = take len (drop start s)"

text \<open>
  \<^verbatim>\<open>Date.now().toString(36) + Math.random().toString(36).substr(2, 9)\<close>. The clock value
  \<open>now\<close> and the text \<open>rnd\<close> that \<^verbatim>\<open>Math.random().toString(36)\<close> returned (a rendering of
  a double, such as \<^verbatim>\<open>0.4fzyo82mvyr\<close>) are inputs.
\<close>

definition generateId :: "nat \<Rightarrow> string \<Rightarrow> string" where
  "generateId now rnd = toString36 now @ substr rnd 2 9"

subsection \<open>Registry queries\<close>

definition getMonitors :: "(string \<times> client) list \<Rightarrow> client list" where
  "getMonitors cs = filter (\<lambda>c. role c = Some (JStr ''monitor'')) (map snd cs)"

definition getCameras :: "(string \<times> client) list \<Rightarrow> client list" where
  "getCameras cs = filter (\<lambda>c. role c = Some (JStr ''camera'')) (map snd cs)"

text \<open>
  \<^verbatim>\<open>clients.get(msg.targetId)\<close>: every key of the map is a string, so a key of any other
  type (or \<^verbatim>\<open>undefined\<close>) finds nothing.
\<close>

fun clients_get :: "(string \<times> client) list \<Rightarrow> json option \<Rightarrow> client option" where
  "clients_get cs (Some (JStr k)) = map_of cs k"
| "clients_get cs _ = None"

subsection \<open>Outbound messages\<close>

definition registered_msg :: "string \<Rightarrow> obj" where
  "registered_msg i = [(''type'', Some (JStr ''registered'')), (''id'', Some (JStr i))]"

definition request_offer_msg :: "string \<Rightarrow> obj" where
  "request_offer_msg m = [(''type'', Some (JStr ''request-offer'')), (''monitorId'', Some (JStr m))]"

definition offer_msg :: "json \<Rightarrow> obj" where
  "offer_msg msg =
     [(''type'', Some (JStr ''offer'')), (''offer'', js_prop msg ''offer''),
      (''fromId'', js_prop msg ''fromId''), (''cameraName'', js_prop msg ''cameraName'')]"

definition answer_msg :: "json \<Rightarrow> obj" where
  "answer_msg msg =
     [(''type'', Some (JStr ''answer'')), (''answer'', js_prop msg ''answer''),
      (''fromId'', js_prop msg ''fromId'')]"

definition ice_candidate_msg :: "json \<Rightarrow> obj" where
  "ice_candidate_msg msg =
     [(''type'', Some (JStr ''ice-candidate'')), (''candidate'', js_prop msg ''candidate''),
      (''fromId'', js_prop msg ''fromId'')]"

definition camera_disconnected_msg :: "string \<Rightarrow> obj" where
  "camera_disconnected_msg i = [(''type'', Some (JStr ''camera-disconnected'')), (''cameraId'', Some (JStr i))]"

definition monitor_disconnected_msg :: "string \<Rightarrow> obj" where
  "monitor_disconnected_msg i = [(''type'', Some (JStr ''monitor-disconnected'')), (''monitorId'', Some (JStr i))]"

subsection \<open>The \<^verbatim>\<open>message\<close> handler\<close>

text \<open>
  The body of the \<^verbatim>\<open>try\<close> block can throw after it has had effects, so each case
  returns the exception thrown, if any, along with the closure variable \<^verbatim>\<open>clientId\<close> and
  the state as they are at that point.

  \<^verbatim>\<open>case "register"\<close>. \<open>mk_client\<close> is the object literal \<^verbatim>\<open>client\<close>. The \<^verbatim>\<open>[REGISTER]\<close>
  log line, which converts \<^verbatim>\<open>msg.role\<close> and \<^verbatim>\<open>msg.name || "N/A"\<close>, comes after
  \<^verbatim>\<open>clients.set\<close> and the \<^verbatim>\<open>registered\<close> reply and before the two role tests.
  \<^verbatim>\<open>cameras.forEach\<close> and \<^verbatim>\<open>monitors.forEach\<close> are folds over the snapshot that
  \<^verbatim>\<open>getCameras()\<close> or \<^verbatim>\<open>getMonitors()\<close> took after \<^verbatim>\<open>clients.set\<close>; the log lines inside
  them convert strings and a number only. A \<^verbatim>\<open>send\<close> call is recorded; it does not throw
  on the open sockets the server holds, and on a socket that has closed the data is
  discarded.
\<close>

definition mk_client :: "socket \<Rightarrow> string \<Rightarrow> json \<Rightarrow> client" where
  "mk_client w clientId msg =
     \<lparr>id_c = clientId, role = js_prop msg ''role'',
      name = or_else (js_prop msg ''name'') (JStr ''Unknown''), ws = w\<rparr>"

text \<open>The \<^verbatim>\<open>[REGISTER]\<close> log line does not throw.\<close>

definition register_log_ok :: "json \<Rightarrow> bool" where
  "register_log_ok msg =
     (printable (js_prop msg ''role'') \<and>
      to_string_ok (or_else (js_prop msg ''name'') (JStr ''N/A'')))"

definition register :: "socket \<Rightarrow> nat \<Rightarrow> string \<Rightarrow> json \<Rightarrow> server \<Rightarrow> error option \<times> string option \<times> server" where
  "register w now rnd msg s =
     (let clientId = generateId now rnd;
          client = mk_client w clientId msg;
          s1 = s\<lparr>clients := AList.update clientId client (clients s)\<rparr>;
          s2 = send w (registered_msg clientId) s1
      in if \<not> register_log_ok msg then (Some TypeError, Some clientId, s2)
         else
           (let s3 = (if js_prop msg ''role'' = Some (JStr ''monitor'')
                      then foldl (\<lambda>t cam. send (ws cam) (request_offer_msg clientId) t) s2
                             (getCameras (clients s2))
                      else s2);
                s4 = (if js_prop msg ''role'' = Some (JStr ''camera'')
                      then foldl (\<lambda>t monitor. send w (request_offer_msg (id_c monitor)) t) s3
                             (getMonitors (clients s3))
                      else s3)
            in (None, Some clientId, s4)))"

text \<open>
  The lookup and the conditional send of \<^verbatim>\<open>case "offer"\<close>, \<^verbatim>\<open>case "answer"\<close> and
  \<^verbatim>\<open>case "ice-candidate"\<close>.
\<close>

definition forward :: "(json \<Rightarrow> obj) \<Rightarrow> json \<Rightarrow> server \<Rightarrow> server" where
  "forward mk msg s =
     (case clients_get (clients s) (js_prop msg ''targetId'') of
        Some target \<Rightarrow> send (ws target) (mk msg) s
      | None \<Rightarrow> s)"

text \<open>
  \<^verbatim>\<open>case "offer"\<close> and \<^verbatim>\<open>case "answer"\<close> have a log line between the lookup and the send; it
  converts \<^verbatim>\<open>msg.fromId\<close> and \<^verbatim>\<open>msg.targetId\<close>. \<^verbatim>\<open>case "ice-candidate"\<close> has none.
\<close>

definition forward_log_ok :: "json \<Rightarrow> bool" where
  "forward_log_ok msg = (printable (js_prop msg ''fromId'') \<and> printable (js_prop msg ''targetId''))"

definition forward_logged :: "(json \<Rightarrow> obj) \<Rightarrow> json \<Rightarrow> server \<Rightarrow> error option \<times> server" where
  "forward_logged mk msg s =
     (if forward_log_ok msg then (None, forward mk msg s)
      else (Some TypeError, s))"

text \<open>\<^verbatim>\<open>switch (msg.type)\<close>: strict equality with the four string labels, no default.\<close>

definition dispatch :: "socket \<Rightarrow> nat \<Rightarrow> string \<Rightarrow> json \<Rightarrow> string option \<times> server \<Rightarrow> error option \<times> string option \<times> server" where
  "dispatch w now rnd msg cs =
     (let t = js_prop msg ''type''; clientId = fst cs; s = snd cs in
      if t = Some (JStr ''register'') then register w now rnd msg s
      else if t = Some (JStr ''offer'')
      then (fst (forward_logged offer_msg msg s), clientId, snd (forward_logged offer_msg msg s))
      else if t = Some (JStr ''answer'')
      then (fst (forward_logged answer_msg msg s), clientId, snd (forward_logged answer_msg msg s))
      else if t = Some (JStr ''ice-candidate'') then (None, clientId, forward ice_candidate_msg msg s)
      else (None, clientId, s))"

text \<open>
  \<^verbatim>\<open>ws.on("message")\<close>. \<open>data\<close> is the outcome of \<^verbatim>\<open>JSON.parse(data.toString())\<close>: the
  exception it threw, or the value. \<^verbatim>\<open>msg.type\<close> throws a TypeError when the value is
  \<^verbatim>\<open>null\<close>. Whatever the body throws is caught by the handler's \<^verbatim>\<open>catch\<close>, which logs it;
  the effects the body had before remain.
\<close>

definition on_message :: "socket \<Rightarrow> nat \<Rightarrow> string \<Rightarrow> error + json \<Rightarrow> string option \<times> server \<Rightarrow> string option \<times> server" where
  "on_message w now rnd data cs =
     (case data of
        Inl e \<Rightarrow> (fst cs, console_error e (snd cs))
      | Inr msg \<Rightarrow>
          (if msg = JNull then (fst cs, console_error TypeError (snd cs))
           else (case dispatch w now rnd msg cs of
                   (None, r) \<Rightarrow> r
                 | (Some e, clientId, s) \<Rightarrow> (clientId, console_error e s))))"

subsection \<open>The \<^verbatim>\<open>close\<close> handler\<close>

text \<open>
  \<^verbatim>\<open>ws.on("close")\<close>. \<^verbatim>\<open>if (clientId)\<close> is false for \<^verbatim>\<open>null\<close> and for the empty string.
  The \<^verbatim>\<open>[DISCONNECT]\<close> log line converts \<^verbatim>\<open>client.role\<close>, the value an earlier
  \<^verbatim>\<open>register\<close> stored; it is the first statement once the entry is found, and this handler
  has no \<^verbatim>\<open>try\<close>, so an exception leaves it (\<open>Inl\<close>) with nothing done. Both notification
  loops read the map before \<^verbatim>\<open>clients.delete\<close>.
\<close>

definition on_close :: "string option \<Rightarrow> server \<Rightarrow> error + server" where
  "on_close clientId s =
     (case clientId of
        None \<Rightarrow> Inr s
      | Some k \<Rightarrow>
          if k = [] then Inr s
          else (case map_of (clients s) k of
                  None \<Rightarrow> Inr s
                | Some client \<Rightarrow>
                    if \<not> printable (role client) then Inl TypeError
                    else
                      (let s1 = (if role client = Some (JStr ''camera'')
                                 then foldl (\<lambda>t monitor. send (ws monitor) (camera_disconnected_msg k) t) s
                                        (getMonitors (clients s))
                                 else s);
                           s2 = (if role client = Some (JStr ''monitor'')
                                 then foldl (\<lambda>t cam. send (ws cam) (monitor_disconnected_msg k) t) s1
                                        (getCameras (clients s1))
                                 else s1)
                       in Inr (s2\<lparr>clients := AList.delete k (clients s2)\<rparr>))))"

subsection \<open>Connections and events\<close>

text \<open>
  What \<^verbatim>\<open>wss.on("connection")\<close> creates per socket: the closure variable \<^verbatim>\<open>clientId\<close>,
  initially \<^verbatim>\<open>null\<close>. \<open>closed\<close> records that the socket's \<^verbatim>\<open>close\<close> event has fired; the
  socket emits nothing afterwards.
\<close>

record conn =
  clientId :: "string option"
  closed :: bool

record sys =
  srv :: server
  conns :: "socket \<Rightarrow> conn option"

text \<open>
  The events of a socket. A message event carries what its handler reads from outside:
  the value of \<^verbatim>\<open>Date.now()\<close> and the text of \<^verbatim>\<open>Math.random().toString(36)\<close>, which only
  \<^verbatim>\<open>case "register"\<close> uses, and the outcome of \<^verbatim>\<open>JSON.parse\<close> on the frame.
\<close>

datatype event =
    Connect socket
  | Message socket nat string "error + json"
  | Close socket

definition init :: sys where
  "init = \<lparr>srv = \<lparr>clients = [], outbox = [], errlog = []\<rparr>, conns = (\<lambda>w. None)\<rparr>"

text \<open>
  What one event leads to: the next state when the handler returns; the exception when
  one escapes the handler (nothing in this file catches it, and the state is left as the
  handler had it at that point); or nothing, for an event the transport never delivers: a
  second connection event for the same socket, or a message or close event of a socket
  that is unknown or already closed.
\<close>

datatype outcome = Undelivered | Uncaught error | Next sys

fun step :: "sys \<Rightarrow> event \<Rightarrow> outcome" where
  "step s (Connect w) =
     (case conns s w of
        None \<Rightarrow> Next (s\<lparr>conns := (conns s)(w \<mapsto> \<lparr>clientId = None, closed = False\<rparr>)\<rparr>)
      | Some c \<Rightarrow> Undelivered)"
| "step s (Message w now rnd data) =
     (case conns s w of
        None \<Rightarrow> Undelivered
      | Some c \<Rightarrow>
          if closed c then Undelivered
          else (let r = on_message w now rnd data (clientId c, srv s)
                in Next \<lparr>srv = snd r, conns = (conns s)(w \<mapsto> c\<lparr>clientId := fst r\<rparr>)\<rparr>))"
| "step s (Close w) =
     (case conns s w of
        None \<Rightarrow> Undelivered
      | Some c \<Rightarrow>
          if closed c then Undelivered
          else (case on_close (clientId c) (srv s) of
                  Inl e \<Rightarrow> Uncaught e
                | Inr srv' \<Rightarrow> Next \<lparr>srv = srv', conns = (conns s)(w \<mapsto> c\<lparr>closed := True\<rparr>)\<rparr>))"

text \<open>
  The states the server can be in: those that a sequence of events, each handled to
  its return, reaches from the empty start. The parameter \<open>G\<close> restricts the events
  considered; \<open>reachable\<close> puts no restriction.
\<close>

inductive reach :: "(sys \<Rightarrow> event \<Rightarrow> bool) \<Rightarrow> sys \<Rightarrow> bool" for G :: "sys \<Rightarrow> event \<Rightarrow> bool" where
  reach_init: "reach G init"
| reach_step: "reach G s \<Longrightarrow> G s e \<Longrightarrow> step s e = Next s' \<Longrightarrow> reach G s'"

definition unrestricted :: "sys \<Rightarrow> event \<Rightarrow> bool" where
  "unrestricted s e = True"

abbreviation reachable :: "sys \<Rightarrow> bool" where
  "reachable \<equiv> reach unrestricted"

text \<open>
  The events in which a \<^verbatim>\<open>register\<close> message draws an id that is not a key of the map
  at that moment. \<^verbatim>\<open>generateId\<close> does not look at the map, so this is a condition on
  the clock and on \<^verbatim>\<open>Math.random\<close>.
\<close>

fun fresh_ids :: "sys \<Rightarrow> event \<Rightarrow> bool" where
  "fresh_ids s (Message w now rnd (Inr msg)) =
     (js_prop msg ''type'' = Some (JStr ''register'') \<longrightarrow>
        generateId now rnd \<notin> fst ` set (clients (srv s)))"
| "fresh_ids s e = True"

text \<open>
  Feeding a list of events to the server. An event that is not delivered, or that \<open>G\<close>
  rules out, is skipped; the run ends where an exception escapes a handler.
\<close>

fun run :: "(sys \<Rightarrow> event \<Rightarrow> bool) \<Rightarrow> sys \<Rightarrow> event list \<Rightarrow> sys" where
  "run G s [] = s"
| "run G s (e # es) =
     (if G s e
      then (case step s e of Next s' \<Rightarrow> run G s' es | Undelivered \<Rightarrow> run G s es | Uncaught x \<Rightarrow> s)
      else run G s es)"

text \<open>The \<^verbatim>\<open>type\<close> member of an outbound object.\<close>

definition is_type :: "string \<Rightarrow> obj \<Rightarrow> bool" where
  "is_type t m = (map_of m ''type'' = Some (Some (JStr t)))"

text \<open>The messages sent by the latest event: what the outbox gained.\<close>

definition sent_since :: "sys \<Rightarrow> sys \<Rightarrow> (socket \<times> obj) list" where
  "sent_since s s' = drop (length (outbox (srv s))) (outbox (srv s'))"

text \<open>
  Socket \<open>w\<close> has been sent \<^verbatim>\<open>registered{id: k}\<close>: the reply that completes a
  registration.
\<close>

definition issued :: "sys \<Rightarrow> socket \<Rightarrow> string \<Rightarrow> bool" where
  "issued s w k = ((w, registered_msg k) \<in> set (outbox (srv s)))"

subsection \<open>Invariants\<close>

text \<open>
  Invariants of every reachable state, whatever events are considered: a connection's
  \<^verbatim>\<open>clientId\<close> is non-empty and was sent to it in a \<^verbatim>\<open>registered\<close> reply; such replies
  only went to sockets that have connected; and every entry of the map was announced to
  the entry's socket.
\<close>

definition inv_conn :: "sys \<Rightarrow> bool" where
  "inv_conn s = (\<forall>w c k. conns s w = Some c \<longrightarrow> clientId c = Some k \<longrightarrow> k \<noteq> [] \<and> issued s w k)"

definition inv_issued :: "sys \<Rightarrow> bool" where
  "inv_issued s = (\<forall>w k. issued s w k \<longrightarrow> conns s w \<noteq> None)"

definition inv_entry :: "sys \<Rightarrow> bool" where
  "inv_entry s = (\<forall>k c. (k, c) \<in> set (clients (srv s)) \<longrightarrow> issued s (ws c) k)"

text \<open>
  Socket \<open>w\<close> holds id \<open>k\<close>: it was sent \<^verbatim>\<open>registered{id: k}\<close> and has not closed with
  \<open>k\<close> as the value of its \<^verbatim>\<open>clientId\<close>. An open socket holds every id it was sent; a
  closed one holds those it was sent before its last registration.
\<close>

definition holds :: "sys \<Rightarrow> socket \<Rightarrow> string \<Rightarrow> bool" where
  "holds s w k =
     (issued s w k \<and>
      (case conns s w of None \<Rightarrow> False | Some c \<Rightarrow> \<not> (closed c \<and> clientId c = Some k)))"

text \<open>
  Invariants of the states reached when no \<^verbatim>\<open>register\<close> draws an id that is in the map:
  the socket of every entry holds the entry's key, every id held is a key, and no id is
  held by two sockets.
\<close>

definition inv_holds :: "sys \<Rightarrow> bool" where
  "inv_holds s =
     ((\<forall>k c. (k, c) \<in> set (clients (srv s)) \<longrightarrow> holds s (ws c) k) \<and>
      (\<forall>w k. holds s w k \<longrightarrow> k \<in> fst ` set (clients (srv s))) \<and>
      (\<forall>w w' k. holds s w k \<longrightarrow> holds s w' k \<longrightarrow> w = w'))"

subsection \<open>A scenario\<close>

text \<open>
  A monitor registers on socket 2, then a camera on socket 3; socket 4 has connected and
  not registered. The clock values and \<^verbatim>\<open>Math.random\<close> renderings are arbitrary.
\<close>

definition ex_register :: "string \<Rightarrow> json" where
  "ex_register r = JObj [(''type'', JStr ''register''), (''role'', JStr r)]"

definition ex_events :: "event list" where
  "ex_events =
     [Connect 2, Message 2 1700000000000 ''0.4fzyo82mvyr'' (Inr (ex_register ''monitor'')),
      Connect 3, Message 3 1700000000123 ''0.k2j5x9q0c1b7'' (Inr (ex_register ''camera'')),
      Connect 4]"

definition ex_state :: sys where
  "ex_state = run unrestricted init ex_events"

text \<open>An offer from the camera, to the monitor or to an id nobody has.\<close>

definition ex_offer :: "string \<Rightarrow> json" where
  "ex_offer target =
     JObj [(''type'', JStr ''offer''), (''targetId'', JStr target),
           (''offer'', JObj [(''type'', JStr ''offer''), (''sdp'', JStr ''v=0'')]),
           (''fromId'', JStr ''loyw3v5nk2j5x9q0c''), (''cameraName'', JStr ''Hall'')]"

text \<open>
  A value that does not convert to a string, the text \<^verbatim>\<open>{"toString":1}\<close>; an offer to the
  monitor with that value as \<^verbatim>\<open>fromId\<close>; and a registration with it as \<^verbatim>\<open>role\<close>.
\<close>

definition ex_unprintable :: json where
  "ex_unprintable = JObj [(''toString'', JNum (Finite 1))]"

definition ex_offer_unprintable :: json where
  "ex_offer_unprintable =
     JObj [(''type'', JStr ''offer''), (''targetId'', JStr ''loyw3v284fzyo82mv''),
           (''offer'', JObj [(''type'', JStr ''offer''), (''sdp'', JStr ''v=0'')]),
           (''fromId'', ex_unprintable)]"

definition ex_register_unprintable :: json where
  "ex_register_unprintable = JObj [(''type'', JStr ''register''), (''role'', ex_unprintable)]"

text \<open>
  The camera's socket registers a second time and then closes.
\<close>

definition ex_stale_state :: sys where
  "ex_stale_state =
     run unrestricted ex_state
       [Message 3 1700000000999 ''0.q7w8e9r0t1y2'' (Inr (ex_register ''camera'')), Close 3]"

text \<open>The state one more event leads to from the scenario's.\<close>

definition ex_then :: "event \<Rightarrow> sys" where
  "ex_then e = run unrestricted ex_state [e]"

section \<open>Effects of the handlers\<close>

declare toString36.simps [simp del]

lemma foldl_send:
  "foldl (\<lambda>t x. t\<lparr>outbox := outbox t @ [(f x, g x)]\<rparr>) s xs =
   (s::server)\<lparr>outbox := outbox s @ map (\<lambda>x. (f x, g x)) xs\<rparr>"
  by (induction xs arbitrary: s) simp_all

lemma toString36_nonempty: "toString36 n \<noteq> []"
  by (subst toString36.simps) simp

lemma generateId_nonempty: "generateId now rnd \<noteq> []"
  by (simp add: generateId_def toString36_nonempty)

text \<open>
  Two ids with the same number of random digits are equal only if the clock values and
  the digits are.
\<close>

lemma digit36_inj:
  assumes "a < 36" "b < 36" "digit36 a = digit36 b"
  shows "a = b"
proof -
  have d: "distinct ''0123456789abcdefghijklmnopqrstuvwxyz''" by simp
  have l: "length ''0123456789abcdefghijklmnopqrstuvwxyz'' = 36" by simp
  from assms show ?thesis
    unfolding digit36_def using nth_eq_iff_index_eq [OF d, of a b] l by simp
qed

lemma toString36_length:
  "\<not> n < 36 \<Longrightarrow> 2 \<le> length (toString36 n)"
proof -
  assume "\<not> n < 36"
  then have "toString36 n = toString36 (n div 36) @ [digit36 (n mod 36)]"
    by (subst toString36.simps) simp
  moreover have "1 \<le> length (toString36 (n div 36))"
    using toString36_nonempty [of "n div 36"] by (cases "toString36 (n div 36)") auto
  ultimately show ?thesis by simp
qed

lemma toString36_inj: "toString36 n = toString36 m \<Longrightarrow> n = m"
proof (induction n arbitrary: m rule: toString36.induct)
  case (1 n)
  show ?case
  proof (cases "n < 36")
    case True
    then have n: "toString36 n = [digit36 n]" by (subst toString36.simps) simp
    show ?thesis
    proof (cases "m < 36")
      case m: True
      then have "toString36 m = [digit36 m]" by (subst toString36.simps) simp
      with n "1.prems" have "digit36 n = digit36 m" by simp
      with True m show ?thesis by (rule digit36_inj)
    next
      case False
      from toString36_length [OF False] n "1.prems" show ?thesis by simp
    qed
  next
    case False
    then have n: "toString36 n = toString36 (n div 36) @ [digit36 (n mod 36)]"
      by (subst toString36.simps) simp
    show ?thesis
    proof (cases "m < 36")
      case True
      then have "toString36 m = [digit36 m]" by (subst toString36.simps) simp
      with toString36_length [OF False] "1.prems" show ?thesis by simp
    next
      case m: False
      then have "toString36 m = toString36 (m div 36) @ [digit36 (m mod 36)]"
        by (subst toString36.simps) simp
      with n "1.prems" have pre: "toString36 (n div 36) = toString36 (m div 36)"
        and dig: "digit36 (n mod 36) = digit36 (m mod 36)"
        by simp_all
      from "1.IH" [OF False pre] have "n div 36 = m div 36" .
      moreover from dig have "n mod 36 = m mod 36"
        by (intro digit36_inj) simp_all
      ultimately show ?thesis by (metis div_mult_mod_eq)
    qed
  qed
qed

lemma generateId_inj:
  assumes "length (substr r1 2 9) = length (substr r2 2 9)"
    and "generateId n1 r1 = generateId n2 r2"
  shows "n1 = n2 \<and> substr r1 2 9 = substr r2 2 9"
  using assms by (auto simp: generateId_def dest: toString36_inj)

lemma printable_simps [simp]:
  "printable None" "printable (Some (JStr x))" "printable (Some v) = to_string_ok v"
  by (simp_all add: printable_def)

lemma register_eq:
  "register w now rnd msg s =
     (if register_log_ok msg then None else Some TypeError,
      Some (generateId now rnd),
      s\<lparr>clients := AList.update (generateId now rnd) (mk_client w (generateId now rnd) msg) (clients s),
        outbox := outbox s @ (w, registered_msg (generateId now rnd)) #
         (if \<not> register_log_ok msg then []
          else if js_prop msg ''role'' = Some (JStr ''monitor'')
          then map (\<lambda>cam. (ws cam, request_offer_msg (generateId now rnd)))
                 (getCameras (AList.update (generateId now rnd) (mk_client w (generateId now rnd) msg) (clients s)))
          else if js_prop msg ''role'' = Some (JStr ''camera'')
          then map (\<lambda>monitor. (w, request_offer_msg (id_c monitor)))
                 (getMonitors (AList.update (generateId now rnd) (mk_client w (generateId now rnd) msg) (clients s)))
          else [])\<rparr>)"
  by (simp add: register_def Let_def foldl_send send_def)

lemma on_message_register:
  assumes "js_prop msg ''type'' = Some (JStr ''register'')"
  shows "on_message w now rnd (Inr msg) (cid, s) =
     (Some (generateId now rnd),
      s\<lparr>clients := AList.update (generateId now rnd) (mk_client w (generateId now rnd) msg) (clients s),
        outbox := outbox s @ (w, registered_msg (generateId now rnd)) #
         (if \<not> register_log_ok msg then []
          else if js_prop msg ''role'' = Some (JStr ''monitor'')
          then map (\<lambda>cam. (ws cam, request_offer_msg (generateId now rnd)))
                 (getCameras (AList.update (generateId now rnd) (mk_client w (generateId now rnd) msg) (clients s)))
          else if js_prop msg ''role'' = Some (JStr ''camera'')
          then map (\<lambda>monitor. (w, request_offer_msg (id_c monitor)))
                 (getMonitors (AList.update (generateId now rnd) (mk_client w (generateId now rnd) msg) (clients s)))
          else []),
        errlog := errlog s @ (if register_log_ok msg then [] else [TypeError])\<rparr>)"
proof -
  from assms have "msg \<noteq> JNull" by auto
  with assms show ?thesis
    by (simp add: on_message_def dispatch_def register_eq console_error_def)
qed

lemma on_message_forward:
  assumes "js_prop msg ''type'' = Some (JStr t)" "t \<noteq> ''register''"
  shows "on_message w now rnd (Inr msg) (cid, s) =
     (cid, if t = ''offer'' then (if forward_log_ok msg then forward offer_msg msg s else console_error TypeError s)
           else if t = ''answer'' then (if forward_log_ok msg then forward answer_msg msg s else console_error TypeError s)
           else if t = ''ice-candidate'' then forward ice_candidate_msg msg s
           else s)"
proof -
  from assms(1) have "msg \<noteq> JNull" by auto
  with assms show ?thesis by (simp add: on_message_def dispatch_def forward_logged_def)
qed

lemma on_close_eq:
  "on_close cid s =
     (case cid of
        None \<Rightarrow> Inr s
      | Some k \<Rightarrow>
          if k = [] then Inr s
          else (case map_of (clients s) k of
                  None \<Rightarrow> Inr s
                | Some client \<Rightarrow>
                    if \<not> printable (role client) then Inl TypeError
                    else Inr (s\<lparr>clients := AList.delete k (clients s),
                      outbox := outbox s @
                        (if role client = Some (JStr ''camera'')
                         then map (\<lambda>monitor. (ws monitor, camera_disconnected_msg k)) (getMonitors (clients s))
                         else if role client = Some (JStr ''monitor'')
                         then map (\<lambda>cam. (ws cam, monitor_disconnected_msg k)) (getCameras (clients s))
                         else [])\<rparr>)))"
  by (simp add: on_close_def Let_def send_def foldl_send split: option.splits)

lemma step_Message:
  assumes "conns s w = Some c" "\<not> closed c"
  shows "step s (Message w now rnd data) =
     Next \<lparr>srv = snd (on_message w now rnd data (clientId c, srv s)),
           conns = (conns s)(w \<mapsto> c\<lparr>clientId := fst (on_message w now rnd data (clientId c, srv s))\<rparr>)\<rparr>"
  using assms by (simp add: Let_def)

lemma step_Message_D:
  assumes "step s (Message w now rnd data) = Next s'"
  obtains c where "conns s w = Some c" "\<not> closed c"
    "srv s' = snd (on_message w now rnd data (clientId c, srv s))"
    "conns s' = (conns s)(w \<mapsto> c\<lparr>clientId := fst (on_message w now rnd data (clientId c, srv s))\<rparr>)"
  using assms by (auto simp: Let_def split: option.splits if_splits)

lemma step_Close_D:
  assumes "step s (Close w) = Next s'"
  obtains c where "conns s w = Some c" "\<not> closed c"
    "on_close (clientId c) (srv s) = Inr (srv s')"
    "conns s' = (conns s)(w \<mapsto> c\<lparr>closed := True\<rparr>)"
  using assms by (auto split: option.splits if_splits sum.splits)

lemma step_Connect_D:
  assumes "step s (Connect w) = Next s'"
  shows "conns s w = None \<and> srv s' = srv s \<and> conns s' = (conns s)(w \<mapsto> \<lparr>clientId = None, closed = False\<rparr>)"
  using assms by (auto split: option.splits)

lemma clients_get_SomeD:
  assumes "clients_get cs x = Some target"
  obtains k where "x = Some (JStr k)"
proof (cases x)
  case None
  with assms show ?thesis by simp
next
  case (Some v)
  with assms show ?thesis by (cases v) (auto intro: that)
qed

lemma forward_hit:
  "clients_get (clients s) (js_prop msg ''targetId'') = Some target \<Longrightarrow>
   forward mk msg s = s\<lparr>outbox := outbox s @ [(ws target, mk msg)]\<rparr>"
  by (simp add: forward_def send_def)

lemma forward_miss:
  "clients_get (clients s) (js_prop msg ''targetId'') = None \<Longrightarrow> forward mk msg s = s"
  by (simp add: forward_def)

lemma reach_run: "reach G s \<Longrightarrow> reach G (run G s es)"
proof (induction es arbitrary: s)
  case Nil
  then show ?case by simp
next
  case (Cons e es)
  show ?case
  proof (cases "G s e")
    case True
    show ?thesis
    proof (cases "step s e")
      case Undelivered
      with True Cons show ?thesis by simp
    next
      case (Uncaught x)
      with True Cons.prems show ?thesis by simp
    next
      case (Next s')
      with True Cons.prems have "reach G s'" by (blast intro: reach_step)
      with Cons.IH True Next show ?thesis by simp
    qed
  next
    case False
    with Cons show ?thesis by simp
  qed
qed




lemma is_type_simps [simp]:
  "is_type t (registered_msg i) = (t = ''registered'')"
  "is_type t (request_offer_msg i) = (t = ''request-offer'')"
  "is_type t (camera_disconnected_msg i) = (t = ''camera-disconnected'')"
  "is_type t (monitor_disconnected_msg i) = (t = ''monitor-disconnected'')"
  "is_type t (offer_msg msg) = (t = ''offer'')"
  "is_type t (answer_msg msg) = (t = ''answer'')"
  "is_type t (ice_candidate_msg msg) = (t = ''ice-candidate'')"
  by (auto simp: is_type_def registered_msg_def request_offer_msg_def camera_disconnected_msg_def
      monitor_disconnected_msg_def offer_msg_def answer_msg_def ice_candidate_msg_def)

lemma step_register:
  assumes "conns s w = Some c" "\<not> closed c"
    and "js_prop msg ''type'' = Some (JStr ''register'')"
  shows "step s (Message w now rnd (Inr msg)) =
     Next \<lparr>srv = snd (on_message w now rnd (Inr msg) (clientId c, srv s)),
           conns = (conns s)(w \<mapsto> c\<lparr>clientId := Some (generateId now rnd)\<rparr>)\<rparr>"
  using assms(1,2) by (simp add: Let_def on_message_register [OF assms(3)])

subsection \<open>What one event changes\<close>

lemma registered_msg_inj [simp]: "registered_msg k = registered_msg k' \<longleftrightarrow> k = k'"
  by (simp add: registered_msg_def)

lemma registered_msg_neq [simp]:
  "registered_msg k \<noteq> request_offer_msg i"
  "registered_msg k \<noteq> camera_disconnected_msg i"
  "registered_msg k \<noteq> monitor_disconnected_msg i"
  "registered_msg k \<noteq> offer_msg msg"
  "registered_msg k \<noteq> answer_msg msg"
  "registered_msg k \<noteq> ice_candidate_msg msg"
  by (simp_all add: registered_msg_def request_offer_msg_def camera_disconnected_msg_def
      monitor_disconnected_msg_def offer_msg_def answer_msg_def ice_candidate_msg_def)

lemma forward_issued:
  assumes "\<And>k. registered_msg k \<noteq> mk msg"
  shows "((w', registered_msg k) \<in> set (outbox (forward mk msg s))) = ((w', registered_msg k) \<in> set (outbox s))"
    and "clients (forward mk msg s) = clients s"
  using assms by (auto simp: forward_def send_def split: option.splits)

lemma step_Message_effect:
  assumes "step s (Message w now rnd data) = Next s'"
  obtains (reg) msg c where "data = Inr msg" "js_prop msg ''type'' = Some (JStr ''register'')"
      "conns s w = Some c" "\<not> closed c"
      "conns s' = (conns s)(w \<mapsto> c\<lparr>clientId := Some (generateId now rnd)\<rparr>)"
      "clients (srv s') = AList.update (generateId now rnd) (mk_client w (generateId now rnd) msg) (clients (srv s))"
      "\<And>w' k. issued s' w' k \<longleftrightarrow> issued s w' k \<or> (w' = w \<and> k = generateId now rnd)"
    | (other) c where "\<forall>msg. data = Inr msg \<longrightarrow> js_prop msg ''type'' \<noteq> Some (JStr ''register'')"
      "conns s w = Some c" "\<not> closed c"
      "conns s' = conns s" "clients (srv s') = clients (srv s)"
      "\<And>w' k. issued s' w' k \<longleftrightarrow> issued s w' k"
proof (cases "\<exists>msg. data = Inr msg \<and> js_prop msg ''type'' = Some (JStr ''register'')")
  case True
  then obtain msg where d: "data = Inr msg" and t: "js_prop msg ''type'' = Some (JStr ''register'')"
    by blast
  from assms obtain c where c: "conns s w = Some c" "\<not> closed c"
    and srv': "srv s' = snd (on_message w now rnd data (clientId c, srv s))"
    and conns': "conns s' = (conns s)(w \<mapsto> c\<lparr>clientId := fst (on_message w now rnd data (clientId c, srv s))\<rparr>)"
    by (rule step_Message_D)
  note om = on_message_register [OF t, of w now rnd "clientId c" "srv s"]
  have cn: "conns s' = (conns s)(w \<mapsto> c\<lparr>clientId := Some (generateId now rnd)\<rparr>)"
    using conns' by (simp add: d om)
  have cl: "clients (srv s') = AList.update (generateId now rnd) (mk_client w (generateId now rnd) msg) (clients (srv s))"
    using srv' by (simp add: d om)
  have "issued s' w' k \<longleftrightarrow> issued s w' k \<or> (w' = w \<and> k = generateId now rnd)" for w' k
    using srv' by (auto simp: issued_def d om)
  with d t c cn cl show thesis by (rule reg)
next
  case False
  then have nr: "\<forall>msg. data = Inr msg \<longrightarrow> js_prop msg ''type'' \<noteq> Some (JStr ''register'')"
    by blast
  from assms obtain c where c: "conns s w = Some c" "\<not> closed c"
    and srv': "srv s' = snd (on_message w now rnd data (clientId c, srv s))"
    and conns': "conns s' = (conns s)(w \<mapsto> c\<lparr>clientId := fst (on_message w now rnd data (clientId c, srv s))\<rparr>)"
    by (rule step_Message_D)
  have fst_om: "fst (on_message w now rnd data (clientId c, srv s)) = clientId c"
    using nr by (cases data)
      (auto simp: on_message_def dispatch_def forward_logged_def Let_def)
  have cl: "clients (snd (on_message w now rnd data (clientId c, srv s))) = clients (srv s)"
    using nr by (cases data)
      (auto simp: on_message_def dispatch_def forward_logged_def Let_def console_error_def forward_issued(2))
  have iss: "((w', registered_msg k) \<in> set (outbox (snd (on_message w now rnd data (clientId c, srv s)))))
      = ((w', registered_msg k) \<in> set (outbox (srv s)))" for w' k
    using nr by (cases data)
      (auto simp: on_message_def dispatch_def forward_logged_def Let_def console_error_def forward_issued(1))
  have "conns s' = conns s"
    using conns' c(1) by (simp add: fst_om fun_upd_idem)
  moreover have "clients (srv s') = clients (srv s)"
    using srv' cl by simp
  moreover have "issued s' w' k \<longleftrightarrow> issued s w' k" for w' k
    using srv' iss by (simp add: issued_def)
  ultimately show thesis using nr c by (intro other [of c]) auto
qed

lemma on_close_Inr:
  assumes "on_close cid s = Inr s'"
  shows "s' =
     (case cid of
        None \<Rightarrow> s
      | Some k \<Rightarrow>
          if k = [] then s
          else (case map_of (clients s) k of
                  None \<Rightarrow> s
                | Some client \<Rightarrow>
                    s\<lparr>clients := AList.delete k (clients s),
                      outbox := outbox s @
                        (if role client = Some (JStr ''camera'')
                         then map (\<lambda>monitor. (ws monitor, camera_disconnected_msg k)) (getMonitors (clients s))
                         else if role client = Some (JStr ''monitor'')
                         then map (\<lambda>cam. (ws cam, monitor_disconnected_msg k)) (getCameras (clients s))
                         else [])\<rparr>))"
  using assms by (auto simp: on_close_eq split: option.splits if_splits)

lemma step_Close_effect:
  assumes "step s (Close w) = Next s'"
  obtains (close) c where "conns s w = Some c" "\<not> closed c"
    "conns s' = (conns s)(w \<mapsto> c\<lparr>closed := True\<rparr>)"
    "clients (srv s') =
       (case clientId c of None \<Rightarrow> clients (srv s)
        | Some k \<Rightarrow> if k = [] then clients (srv s) else AList.delete k (clients (srv s)))"
    "\<And>w' k. issued s' w' k \<longleftrightarrow> issued s w' k"
proof -
  from assms obtain c where c: "conns s w = Some c" "\<not> closed c"
    and oc: "on_close (clientId c) (srv s) = Inr (srv s')"
    and conns': "conns s' = (conns s)(w \<mapsto> c\<lparr>closed := True\<rparr>)"
    by (rule step_Close_D)
  note srv' = on_close_Inr [OF oc]
  have cl: "clients (srv s') =
       (case clientId c of None \<Rightarrow> clients (srv s)
        | Some k \<Rightarrow> if k = [] then clients (srv s) else AList.delete k (clients (srv s)))"
  proof (cases "clientId c")
    case None
    then show ?thesis using srv' by simp
  next
    case (Some k)
    show ?thesis
    proof (cases "map_of (clients (srv s)) k")
      case None
      then have "k \<notin> fst ` set (clients (srv s))"
        by (simp add: map_of_eq_None_iff)
      then have "AList.delete k (clients (srv s)) = clients (srv s)"
        by (rule AList.delete_id)
      with Some None srv' show ?thesis by simp
    next
      case (Some client)
      with \<open>clientId c = Some k\<close> srv' show ?thesis by simp
    qed
  qed
  have "((w', registered_msg k) \<in> set (outbox (srv s'))) = ((w', registered_msg k) \<in> set (outbox (srv s)))" for w' k
    by (subst srv') (auto split: option.splits)
  then have "issued s' w' k \<longleftrightarrow> issued s w' k" for w' k
    by (simp add: issued_def)
  with c conns' cl show thesis by (rule that)
qed

subsection \<open>Invariants of reachable states\<close>

lemma issued_init [simp]: "\<not> issued init w k"
  by (simp add: issued_def init_def)

lemma set_update_subset: "set (AList.update k v al) \<subseteq> insert (k, v) (set al)"
  by (induction al) auto

lemma set_delete_subset: "set (AList.delete k al) \<subseteq> set al"
  by (auto simp: AList.delete_eq)

lemma step_Connect_issued:
  assumes "step s (Connect w) = Next s'"
  shows "issued s' w' k \<longleftrightarrow> issued s w' k"
  using step_Connect_D [OF assms] by (simp add: issued_def)

lemma inv_conn_step:
  assumes "inv_conn s" "step s e = Next s'"
  shows "inv_conn s'"
proof (cases e)
  case (Connect w)
  with assms(2) have st: "step s (Connect w) = Next s'" by simp
  from step_Connect_D [OF st] step_Connect_issued [OF st] assms(1) show ?thesis
    by (auto simp: inv_conn_def)
next
  case (Message w now rnd data)
  with assms(2) have st: "step s (Message w now rnd data) = Next s'" by simp
  from st show ?thesis
  proof (cases rule: step_Message_effect)
    case (reg msg c)
    with assms(1) show ?thesis
      by (auto simp: inv_conn_def generateId_nonempty)
  next
    case (other c)
    with assms(1) show ?thesis
      by (auto simp: inv_conn_def)
  qed
next
  case (Close w)
  with assms(2) have st: "step s (Close w) = Next s'" by simp
  from st show ?thesis
  proof (cases rule: step_Close_effect)
    case (close c)
    with assms(1) show ?thesis
      by (auto simp: inv_conn_def)
  qed
qed

lemma inv_issued_step:
  assumes "inv_issued s" "step s e = Next s'"
  shows "inv_issued s'"
proof (cases e)
  case (Connect w)
  with assms(2) have st: "step s (Connect w) = Next s'" by simp
  from step_Connect_D [OF st] step_Connect_issued [OF st] assms(1) show ?thesis
    by (auto simp: inv_issued_def)
next
  case (Message w now rnd data)
  with assms(2) have st: "step s (Message w now rnd data) = Next s'" by simp
  from st show ?thesis
  proof (cases rule: step_Message_effect)
    case (reg msg c)
    with assms(1) show ?thesis
      by (auto simp: inv_issued_def)
  next
    case (other c)
    with assms(1) show ?thesis
      by (auto simp: inv_issued_def)
  qed
next
  case (Close w)
  with assms(2) have st: "step s (Close w) = Next s'" by simp
  from st show ?thesis
  proof (cases rule: step_Close_effect)
    case (close c)
    with assms(1) show ?thesis
      by (auto simp: inv_issued_def)
  qed
qed

lemma inv_entry_step:
  assumes "inv_entry s" "step s e = Next s'"
  shows "inv_entry s'"
proof (cases e)
  case (Connect w)
  with assms(2) have st: "step s (Connect w) = Next s'" by simp
  from step_Connect_D [OF st] step_Connect_issued [OF st] assms(1) show ?thesis
    by (auto simp: inv_entry_def)
next
  case (Message w now rnd data)
  with assms(2) have st: "step s (Message w now rnd data) = Next s'" by simp
  from st show ?thesis
  proof (cases rule: step_Message_effect)
    case (reg msg c)
    have "issued s' (ws c') k" if "(k, c') \<in> set (clients (srv s'))" for k c'
    proof -
      from that reg(6) set_update_subset
      have "(k, c') = (generateId now rnd, mk_client w (generateId now rnd) msg) \<or> (k, c') \<in> set (clients (srv s))"
        by fastforce
      then show ?thesis
      proof
        assume "(k, c') = (generateId now rnd, mk_client w (generateId now rnd) msg)"
        then show ?thesis by (simp add: reg(7) mk_client_def)
      next
        assume "(k, c') \<in> set (clients (srv s))"
        with assms(1) show ?thesis by (simp add: reg(7) inv_entry_def)
      qed
    qed
    then show ?thesis by (simp add: inv_entry_def)
  next
    case (other c)
    with assms(1) show ?thesis
      by (auto simp: inv_entry_def)
  qed
next
  case (Close w)
  with assms(2) have st: "step s (Close w) = Next s'" by simp
  from st show ?thesis
  proof (cases rule: step_Close_effect)
    case (close c)
    have "set (clients (srv s')) \<subseteq> set (clients (srv s))"
      using close(4) set_delete_subset [of _ "clients (srv s)"]
      by (cases "clientId c") (auto split: if_splits)
    with assms(1) close(5) show ?thesis
      by (auto simp: inv_entry_def)
  qed
qed

lemma reach_invs:
  assumes "reach G s"
  shows "inv_conn s \<and> inv_issued s \<and> inv_entry s"
  using assms
proof (induction rule: reach.induct)
  case reach_init
  show ?case by (simp add: inv_conn_def inv_issued_def inv_entry_def) (simp add: init_def)
next
  case (reach_step s e s')
  then show ?case
    by (blast intro: inv_conn_step inv_issued_step inv_entry_step)
qed

subsection \<open>Who holds which id\<close>

lemma update_absent:
  "k \<notin> fst ` set al \<Longrightarrow> AList.update k v al = al @ [(k, v)]"
  by (induction al) auto

lemma set_delete: "set (AList.delete k al) = {p \<in> set al. fst p \<noteq> k}"
  by (auto simp: AList.delete_eq)

lemma holds_Connect:
  assumes "inv_issued s" "step s (Connect w) = Next s'"
  shows "holds s' w' k \<longleftrightarrow> holds s w' k"
proof -
  from step_Connect_D [OF assms(2)]
  have none: "conns s w = None" and conns': "conns s' = (conns s)(w \<mapsto> \<lparr>clientId = None, closed = False\<rparr>)"
    by simp_all
  from assms(1) none have "\<not> issued s w k" by (auto simp: inv_issued_def)
  then show ?thesis
    using conns' step_Connect_issued [OF assms(2)] by (auto simp: holds_def)
qed

lemma holds_Close:
  assumes "step s (Close w) = Next s'" "conns s w = Some c"
  shows "holds s' w' k \<longleftrightarrow> holds s w' k \<and> \<not> (w' = w \<and> clientId c = Some k)"
  using assms(1)
proof (cases rule: step_Close_effect)
  case (close c')
  with assms(2) have "c' = c" by simp
  with close show ?thesis by (auto simp: holds_def)
qed

lemma inv_holds_step:
  assumes "inv_conn s" "inv_issued s" "inv_holds s"
    and "fresh_ids s e" "step s e = Next s'"
  shows "inv_holds s'"
proof (cases e)
  case (Connect w)
  with assms(5) have st: "step s (Connect w) = Next s'" by simp
  from step_Connect_D [OF st] have "clients (srv s') = clients (srv s)" by simp
  with assms(3) holds_Connect [OF assms(2) st] show ?thesis
    by (simp add: inv_holds_def)
next
  case (Message w now rnd data)
  with assms(5) have st: "step s (Message w now rnd data) = Next s'" by simp
  from st show ?thesis
  proof (cases rule: step_Message_effect)
    case (other c)
    then have "holds s' w' k \<longleftrightarrow> holds s w' k" for w' k
      by (simp add: holds_def)
    with assms(3) other(5) show ?thesis
      by (simp add: inv_holds_def)
  next
    case (reg msg c)
    let ?g = "generateId now rnd"
    from assms(4) Message reg(1,2) have fresh: "?g \<notin> fst ` set (clients (srv s))"
      by simp
    have h: "holds s' w' k \<longleftrightarrow> holds s w' k \<or> (w' = w \<and> k = ?g)" for w' k
      using reg(3,4,5,7) by (auto simp: holds_def)
    have cl: "set (clients (srv s')) = insert (?g, mk_client w ?g msg) (set (clients (srv s)))"
      using reg(6) fresh by (simp add: update_absent)
    have j1: "holds s' (ws c') k" if "(k, c') \<in> set (clients (srv s'))" for k c'
    proof -
      from that cl have "(k, c') = (?g, mk_client w ?g msg) \<or> (k, c') \<in> set (clients (srv s))"
        by auto
      then show ?thesis
      proof
        assume "(k, c') = (?g, mk_client w ?g msg)"
        then show ?thesis by (simp add: h mk_client_def)
      next
        assume "(k, c') \<in> set (clients (srv s))"
        with assms(3) show ?thesis by (simp add: h inv_holds_def)
      qed
    qed
    have j2: "k \<in> fst ` set (clients (srv s'))" if "holds s' w' k" for w' k
    proof -
      from that h have "holds s w' k \<or> k = ?g" by auto
      then show ?thesis
      proof
        assume "holds s w' k"
        with assms(3) have "k \<in> fst ` set (clients (srv s))" by (auto simp: inv_holds_def)
        then show ?thesis by (auto simp: cl)
      next
        assume "k = ?g"
        then show ?thesis by (simp add: cl)
      qed
    qed
    have old: "\<not> holds s w' ?g" for w'
      using assms(3) fresh by (auto simp: inv_holds_def)
    have j3: "w1 = w2" if "holds s' w1 k" "holds s' w2 k" for w1 w2 k
    proof (cases "k = ?g")
      case True
      with that h old show ?thesis by auto
    next
      case False
      with that h have "holds s w1 k" "holds s w2 k" by auto
      with assms(3) show ?thesis by (auto simp: inv_holds_def)
    qed
    from j1 j2 j3 show ?thesis
      unfolding inv_holds_def by blast
  qed
next
  case (Close w)
  with assms(5) have st: "step s (Close w) = Next s'" by simp
  from st show ?thesis
  proof (cases rule: step_Close_effect)
    case (close c)
    note h = holds_Close [OF st close(1)]
    show ?thesis
    proof (cases "clientId c")
      case None
      with h have "holds s' w' k \<longleftrightarrow> holds s w' k" for w' k by simp
      moreover from None close(4) have "clients (srv s') = clients (srv s)" by simp
      ultimately show ?thesis using assms(3) by (simp add: inv_holds_def)
    next
      case (Some k0)
      with assms(1) close(1) have k0: "k0 \<noteq> []" and iss: "issued s w k0"
        by (auto simp: inv_conn_def)
      from iss close(1,2) have mine: "holds s w k0"
        by (simp add: holds_def)
      from Some k0 close(4) have cl: "clients (srv s') = AList.delete k0 (clients (srv s))"
        by simp
      have h': "holds s' w' k \<longleftrightarrow> holds s w' k \<and> \<not> (w' = w \<and> k0 = k)" for w' k
        using h Some by simp
      have j1: "holds s' (ws c') k" if "(k, c') \<in> set (clients (srv s'))" for k c'
      proof -
        from that cl have "k \<noteq> k0" "(k, c') \<in> set (clients (srv s))"
          by (auto simp: set_delete)
        with assms(3) show ?thesis by (auto simp: h' inv_holds_def)
      qed
      have j2: "k \<in> fst ` set (clients (srv s'))" if "holds s' w' k" for w' k
      proof -
        from that h' have old: "holds s w' k" and ne: "\<not> (w' = w \<and> k0 = k)" by auto
        have "k \<noteq> k0"
        proof
          assume "k = k0"
          with old mine assms(3) have "w' = w" by (auto simp: inv_holds_def)
          with ne \<open>k = k0\<close> show False by simp
        qed
        moreover from old assms(3) have "k \<in> fst ` set (clients (srv s))"
          by (auto simp: inv_holds_def)
        ultimately show ?thesis by (force simp: cl set_delete)
      qed
      have j3: "w1 = w2" if "holds s' w1 k" "holds s' w2 k" for w1 w2 k
        using that h' assms(3) by (auto simp: inv_holds_def)
      from j1 j2 j3 show ?thesis
        unfolding inv_holds_def by blast
    qed
  qed
qed

lemma reach_fresh_inv_holds:
  assumes "reach fresh_ids s"
  shows "inv_holds s"
  using assms
proof (induction rule: reach.induct)
  case reach_init
  show ?case by (simp add: inv_holds_def holds_def) (simp add: init_def)
next
  case (reach_step s e s')
  from reach_step(1) have "inv_conn s" "inv_issued s"
    by (simp_all add: reach_invs)
  with reach_step show ?case
    by (blast intro: inv_holds_step)
qed

subsection \<open>The scenario, evaluated\<close>

lemmas eval_defs = ex_register_def ex_offer_def ex_unprintable_def ex_offer_unprintable_def
  ex_register_unprintable_def unrestricted_def init_def on_message_def dispatch_def
  register_eq register_log_ok_def forward_log_ok_def forward_logged_def printable_def
  generateId_def toString36.simps digit36_def substr_def mk_client_def or_else_def
  getCameras_def getMonitors_def registered_msg_def request_offer_msg_def forward_def send_def
  offer_msg_def answer_msg_def ice_candidate_msg_def on_close_eq camera_disconnected_msg_def
  monitor_disconnected_msg_def console_error_def Let_def sent_since_def is_type_def

lemma ex_state_eq:
  "ex_state =
     \<lparr>srv =
        \<lparr>clients =
           [(''loyw3v284fzyo82mv'',
             \<lparr>id_c = ''loyw3v284fzyo82mv'', role = Some (JStr ''monitor''),
                name = JStr ''Unknown'', ws = 2\<rparr>),
            (''loyw3v5nk2j5x9q0c'',
             \<lparr>id_c = ''loyw3v5nk2j5x9q0c'', role = Some (JStr ''camera''),
                name = JStr ''Unknown'', ws = 3\<rparr>)],
         outbox =
           [(2, [(''type'', Some (JStr ''registered'')), (''id'', Some (JStr ''loyw3v284fzyo82mv''))]),
            (3, [(''type'', Some (JStr ''registered'')), (''id'', Some (JStr ''loyw3v5nk2j5x9q0c''))]),
            (3, [(''type'', Some (JStr ''request-offer'')),
                 (''monitorId'', Some (JStr ''loyw3v284fzyo82mv''))])],
         errlog = []\<rparr>,
      conns =
        [2 \<mapsto> \<lparr>clientId = Some ''loyw3v284fzyo82mv'', closed = False\<rparr>,
         3 \<mapsto> \<lparr>clientId = Some ''loyw3v5nk2j5x9q0c'', closed = False\<rparr>,
         4 \<mapsto> \<lparr>clientId = None, closed = False\<rparr>]\<rparr>"
  by (simp add: ex_state_def ex_events_def eval_defs)

lemma reachable_ex_state: "reachable ex_state"
  unfolding ex_state_def by (rule reach_run [OF reach_init])

lemma ex_stale_state_eq:
  "ex_stale_state =
     \<lparr>srv =
        \<lparr>clients =
           [(''loyw3v284fzyo82mv'',
             \<lparr>id_c = ''loyw3v284fzyo82mv'', role = Some (JStr ''monitor''),
                name = JStr ''Unknown'', ws = 2\<rparr>),
            (''loyw3v5nk2j5x9q0c'',
             \<lparr>id_c = ''loyw3v5nk2j5x9q0c'', role = Some (JStr ''camera''),
                name = JStr ''Unknown'', ws = 3\<rparr>)],
         outbox =
           [(2, [(''type'', Some (JStr ''registered'')), (''id'', Some (JStr ''loyw3v284fzyo82mv''))]),
            (3, [(''type'', Some (JStr ''registered'')), (''id'', Some (JStr ''loyw3v5nk2j5x9q0c''))]),
            (3, [(''type'', Some (JStr ''request-offer'')),
                 (''monitorId'', Some (JStr ''loyw3v284fzyo82mv''))]),
            (3, [(''type'', Some (JStr ''registered'')), (''id'', Some (JStr ''loyw3vtzq7w8e9r0t''))]),
            (3, [(''type'', Some (JStr ''request-offer'')),
                 (''monitorId'', Some (JStr ''loyw3v284fzyo82mv''))]),
            (2, [(''type'', Some (JStr ''camera-disconnected'')),
                 (''cameraId'', Some (JStr ''loyw3vtzq7w8e9r0t''))])],
         errlog = []\<rparr>,
      conns =
        [2 \<mapsto> \<lparr>clientId = Some ''loyw3v284fzyo82mv'', closed = False\<rparr>,
         4 \<mapsto> \<lparr>clientId = None, closed = False\<rparr>,
         3 \<mapsto> \<lparr>clientId = Some ''loyw3vtzq7w8e9r0t'', closed = True\<rparr>]\<rparr>"
  by (simp add: ex_stale_state_def ex_state_eq eval_defs)

subsection \<open>Claim C1\<close>

text \<open>
  C1, as amended. In every state reached by events in which no \<^verbatim>\<open>register\<close> draws an id
  that is already a key of the Registry: the Registry contains an entry for an id if and
  only if some connection that received that id via \<^verbatim>\<open>registered{id}\<close> has not closed
  with that id as its current one (so an id received before a re-registration stays in
  the Registry after the connection closes); every open connection has the entry of its
  current id, with its own channel; and no entry under the current id of a closed
  connection refers to that connection.
\<close>

theorem registry_entries_are_held_ids:
  assumes "reach fresh_ids s"
  shows "(k \<in> fst ` set (clients (srv s)) \<longleftrightarrow> (\<exists>w. holds s w k))
       \<and> (\<forall>w c. conns s w = Some c \<and> \<not> closed c \<and> clientId c = Some k
            \<longrightarrow> (\<exists>cl. map_of (clients (srv s)) k = Some cl \<and> ws cl = w))
       \<and> (\<forall>w c cl. conns s w = Some c \<and> closed c \<and> clientId c = Some k
              \<and> (k, cl) \<in> set (clients (srv s))
            \<longrightarrow> ws cl \<noteq> w)"
proof -
  from assms have ic: "inv_conn s" and ih: "inv_holds s"
    by (simp_all add: reach_invs reach_fresh_inv_holds)
  from ih have j1: "\<And>k c. (k, c) \<in> set (clients (srv s)) \<Longrightarrow> holds s (ws c) k"
    and j2: "\<And>w k. holds s w k \<Longrightarrow> k \<in> fst ` set (clients (srv s))"
    and j3: "\<And>w w' k. holds s w k \<Longrightarrow> holds s w' k \<Longrightarrow> w = w'"
    unfolding inv_holds_def by blast+
  have a: "k \<in> fst ` set (clients (srv s)) \<longleftrightarrow> (\<exists>w. holds s w k)"
  proof
    assume "k \<in> fst ` set (clients (srv s))"
    then obtain c where "(k, c) \<in> set (clients (srv s))" by auto
    then have "holds s (ws c) k" by (rule j1)
    then show "\<exists>w. holds s w k" ..
  next
    assume "\<exists>w. holds s w k"
    then show "k \<in> fst ` set (clients (srv s))" using j2 by blast
  qed
  have b: "\<exists>cl. map_of (clients (srv s)) k = Some cl \<and> ws cl = w"
    if "conns s w = Some c" "\<not> closed c" "clientId c = Some k" for w c
  proof -
    from ic that(1,3) have "issued s w k" by (auto simp: inv_conn_def)
    with that(1,2) have mine: "holds s w k" by (simp add: holds_def)
    then have "k \<in> fst ` set (clients (srv s))" by (rule j2)
    then obtain cl where cl: "map_of (clients (srv s)) k = Some cl"
      by (cases "map_of (clients (srv s)) k") (auto simp: map_of_eq_None_iff)
    then have "(k, cl) \<in> set (clients (srv s))" by (rule map_of_SomeD)
    then have "holds s (ws cl) k" by (rule j1)
    with mine have "ws cl = w" by (blast intro: j3)
    with cl show ?thesis by simp
  qed
  have c: "ws cl \<noteq> w"
    if "conns s w = Some c" "closed c" "clientId c = Some k" "(k, cl) \<in> set (clients (srv s))" for w c cl
  proof
    assume "ws cl = w"
    with j1 [OF that(4)] have "holds s w k" by simp
    with that(1,2,3) show False by (simp add: holds_def)
  qed
  from a b c show ?thesis by blast
qed

theorem registry_entries_are_held_ids_witness:
  "reach fresh_ids ex_stale_state
   \<and> map fst (clients (srv ex_stale_state)) = [''loyw3v284fzyo82mv'', ''loyw3v5nk2j5x9q0c'']
   \<and> holds ex_stale_state 2 ''loyw3v284fzyo82mv''
   \<and> holds ex_stale_state 3 ''loyw3v5nk2j5x9q0c''
   \<and> conns ex_stale_state 3 = Some \<lparr>clientId = Some ''loyw3vtzq7w8e9r0t'', closed = True\<rparr>
   \<and> \<not> holds ex_stale_state 3 ''loyw3vtzq7w8e9r0t''
   \<and> ''loyw3vtzq7w8e9r0t'' \<notin> fst ` set (clients (srv ex_stale_state))"
proof -
  have "run fresh_ids init
      (ex_events @ [Message 3 1700000000999 ''0.q7w8e9r0t1y2'' (Inr (ex_register ''camera'')), Close 3])
      = ex_stale_state"
    by (simp add: ex_events_def ex_stale_state_eq eval_defs)
  then have h1: "reach fresh_ids ex_stale_state"
    using reach_run [OF reach_init, of fresh_ids] by metis
  have h2: "map fst (clients (srv ex_stale_state)) = [''loyw3v284fzyo82mv'', ''loyw3v5nk2j5x9q0c'']"
    by (simp add: ex_stale_state_eq)
  have h3: "holds ex_stale_state 2 ''loyw3v284fzyo82mv''"
    by (simp add: holds_def issued_def registered_msg_def ex_stale_state_eq)
  have h4: "holds ex_stale_state 3 ''loyw3v5nk2j5x9q0c''"
    by (simp add: holds_def issued_def registered_msg_def ex_stale_state_eq)
  have h5: "conns ex_stale_state 3 = Some \<lparr>clientId = Some ''loyw3vtzq7w8e9r0t'', closed = True\<rparr>"
    by (simp add: ex_stale_state_eq)
  have h6: "\<not> holds ex_stale_state 3 ''loyw3vtzq7w8e9r0t''"
    by (simp add: holds_def h5)
  have "\<not> holds ex_stale_state w ''loyw3vtzq7w8e9r0t''" for w
    using h6 by (auto simp: holds_def issued_def registered_msg_def ex_stale_state_eq)
  with registry_entries_are_held_ids [OF h1, of "''loyw3vtzq7w8e9r0t''"]
  have h7: "''loyw3vtzq7w8e9r0t'' \<notin> fst ` set (clients (srv ex_stale_state))"
    by blast
  show ?thesis
    by (intro conjI) (rule h1 h2 h3 h4 h5 h6 h7)+
qed

text \<open>
  The claim as stated fails after a re-registration: socket 3 was sent the id
  \<^verbatim>\<open>loyw3v5nk2j5x9q0c\<close>, registered again, and closed. It is the only socket that was ever
  sent that id, it is closed, and the id is still a key of the Registry.
\<close>

theorem stale_entry_counterexample:
  "reachable ex_stale_state
   \<and> conns ex_stale_state 3 = Some \<lparr>clientId = Some ''loyw3vtzq7w8e9r0t'', closed = True\<rparr>
   \<and> map fst (filter (\<lambda>p. snd p = registered_msg ''loyw3v5nk2j5x9q0c'') (outbox (srv ex_stale_state))) = [3]
   \<and> map_of (clients (srv ex_stale_state)) ''loyw3v5nk2j5x9q0c''
       = Some \<lparr>id_c = ''loyw3v5nk2j5x9q0c'', role = Some (JStr ''camera''), name = JStr ''Unknown'', ws = 3\<rparr>"
proof -
  have "reachable ex_stale_state"
    unfolding ex_stale_state_def by (rule reach_run [OF reachable_ex_state])
  then show ?thesis
    by (simp add: registered_msg_def ex_stale_state_eq)
qed

subsection \<open>Claim C2\<close>




subsection \<open>Claim C3\<close>




subsection \<open>Claim C4\<close>




subsection \<open>Claim C5\<close>

text \<open>
  C5. The claim: every \<^verbatim>\<open>offer\<close>, \<^verbatim>\<open>answer\<close> or \<^verbatim>\<open>ice-candidate\<close> message whose \<^verbatim>\<open>targetId\<close>
  is a key of the Registry is forwarded to the target's channel, \<^verbatim>\<open>fromId\<close> carried over
  unchanged. The code at an offer from the camera to the registered monitor whose
  \<^verbatim>\<open>fromId\<close> is the value \<^verbatim>\<open>{"toString":1}\<close>: the log line of \<^verbatim>\<open>case "offer"\<close> throws while
  converting \<^verbatim>\<open>msg.fromId\<close>, before the send; the handler catches and logs the TypeError,
  and nothing is forwarded.
\<close>

theorem offer_with_unprintable_fromId_dropped:
  "conns ex_state 3 = Some \<lparr>clientId = Some ''loyw3v5nk2j5x9q0c'', closed = False\<rparr>
   \<and> js_prop ex_offer_unprintable ''type'' = Some (JStr ''offer'')
   \<and> js_prop ex_offer_unprintable ''fromId'' = Some (JObj [(''toString'', JNum (Finite 1))])
   \<and> clients_get (clients (srv ex_state)) (js_prop ex_offer_unprintable ''targetId'')
       = Some \<lparr>id_c = ''loyw3v284fzyo82mv'', role = Some (JStr ''monitor''),
                name = JStr ''Unknown'', ws = 2\<rparr>
   \<and> step ex_state (Message 3 1700000000456 ''0.9x8c7v6b5n4'' (Inr ex_offer_unprintable))
       = Next (ex_then (Message 3 1700000000456 ''0.9x8c7v6b5n4'' (Inr ex_offer_unprintable)))
   \<and> sent_since ex_state (ex_then (Message 3 1700000000456 ''0.9x8c7v6b5n4'' (Inr ex_offer_unprintable))) = []
   \<and> srv (ex_then (Message 3 1700000000456 ''0.9x8c7v6b5n4'' (Inr ex_offer_unprintable)))
       = (srv ex_state)\<lparr>errlog := [TypeError]\<rparr>"
  by (simp add: ex_then_def ex_state_eq eval_defs)

text \<open>
  What the code does when the log line does not throw, which is always so for an
  \<^verbatim>\<open>ice-candidate\<close> (that case has no log line) and, for an \<^verbatim>\<open>offer\<close> or \<^verbatim>\<open>answer\<close>, when
  \<^verbatim>\<open>fromId\<close> converts to a string: exactly one message is sent, to the channel of the entry
  found, of the same type, with the payload member (\<^verbatim>\<open>offer\<close>, \<^verbatim>\<open>answer\<close> or \<^verbatim>\<open>candidate\<close>)
  and \<^verbatim>\<open>fromId\<close> (and \<^verbatim>\<open>cameraName\<close> for an offer) as they were in the inbound message, and
  without \<^verbatim>\<open>targetId\<close>; the Registry, the error log and all connections stay as they were.
\<close>

lemma forward_to_present_target:
  assumes "conns s w = Some c" and "\<not> closed c"
    and "js_prop msg ''type'' = Some (JStr t)"
    and "t \<in> {''offer'', ''answer'', ''ice-candidate''}"
    and "clients_get (clients (srv s)) (js_prop msg ''targetId'') = Some target"
    and "t = ''ice-candidate'' \<or> printable (js_prop msg ''fromId'')"
  shows "\<exists>s' m. step s (Message w now rnd (Inr msg)) = Next s'
           \<and> outbox (srv s') = outbox (srv s) @ [(ws target, m)]
           \<and> map fst m = [''type'', (if t = ''ice-candidate'' then ''candidate'' else t), ''fromId'']
                          @ (if t = ''offer'' then [''cameraName''] else [])
           \<and> (\<forall>k \<in> set (map fst m). map_of m k = Some (js_prop msg k))
           \<and> clients (srv s') = clients (srv s)
           \<and> errlog (srv s') = errlog (srv s)
           \<and> conns s' = conns s"
proof -
  define s' where "s' = \<lparr>srv = snd (on_message w now rnd (Inr msg) (clientId c, srv s)),
      conns = (conns s)(w \<mapsto> c\<lparr>clientId := fst (on_message w now rnd (Inr msg) (clientId c, srv s))\<rparr>)\<rparr>"
  have st: "step s (Message w now rnd (Inr msg)) = Next s'"
    unfolding s'_def using assms(1,2) by (rule step_Message)
  from assms(4) have t: "t \<noteq> ''register''" by auto
  note om = on_message_forward [OF assms(3) t, of w now rnd "clientId c" "srv s"]
  from assms(5) obtain k where "js_prop msg ''targetId'' = Some (JStr k)"
    by (rule clients_get_SomeD)
  with assms(6) have ok: "t = ''ice-candidate'' \<or> forward_log_ok msg"
    by (auto simp: forward_log_ok_def)
  have conns_eq: "conns s' = conns s"
    using assms(1) by (simp add: s'_def om fun_upd_idem)
  consider "t = ''offer''" | "t = ''answer''" | "t = ''ice-candidate''"
    using assms(4) by auto
  then show ?thesis
  proof cases
    case 1
    with ok have "srv s' = (srv s)\<lparr>outbox := outbox (srv s) @ [(ws target, offer_msg msg)]\<rparr>"
      using om forward_hit [OF assms(5)] by (simp add: s'_def)
    then show ?thesis using 1 assms(3) conns_eq st
      by (intro exI [of _ s'] exI [of _ "offer_msg msg"]) (simp add: offer_msg_def)
  next
    case 2
    with ok have "srv s' = (srv s)\<lparr>outbox := outbox (srv s) @ [(ws target, answer_msg msg)]\<rparr>"
      using om forward_hit [OF assms(5)] by (simp add: s'_def)
    then show ?thesis using 2 assms(3) conns_eq st
      by (intro exI [of _ s'] exI [of _ "answer_msg msg"]) (simp add: answer_msg_def)
  next
    case 3
    then have "srv s' = (srv s)\<lparr>outbox := outbox (srv s) @ [(ws target, ice_candidate_msg msg)]\<rparr>"
      using om forward_hit [OF assms(5)] by (simp add: s'_def)
    then show ?thesis using 3 assms(3) conns_eq st
      by (intro exI [of _ s'] exI [of _ "ice_candidate_msg msg"]) (simp add: ice_candidate_msg_def)
  qed
qed

lemma forward_to_present_target_example:
  "conns ex_state 3 = Some \<lparr>clientId = Some ''loyw3v5nk2j5x9q0c'', closed = False\<rparr>
   \<and> js_prop (ex_offer ''loyw3v284fzyo82mv'') ''type'' = Some (JStr ''offer'')
   \<and> printable (js_prop (ex_offer ''loyw3v284fzyo82mv'') ''fromId'')
   \<and> clients_get (clients (srv ex_state)) (js_prop (ex_offer ''loyw3v284fzyo82mv'') ''targetId'')
       = Some \<lparr>id_c = ''loyw3v284fzyo82mv'', role = Some (JStr ''monitor''),
                name = JStr ''Unknown'', ws = 2\<rparr>
   \<and> step ex_state (Message 3 1700000000456 ''0.9x8c7v6b5n4'' (Inr (ex_offer ''loyw3v284fzyo82mv'')))
       = Next (ex_then (Message 3 1700000000456 ''0.9x8c7v6b5n4'' (Inr (ex_offer ''loyw3v284fzyo82mv''))))
   \<and> sent_since ex_state
        (ex_then (Message 3 1700000000456 ''0.9x8c7v6b5n4'' (Inr (ex_offer ''loyw3v284fzyo82mv''))))
       = [(2, [(''type'', Some (JStr ''offer'')),
               (''offer'', Some (JObj [(''type'', JStr ''offer''), (''sdp'', JStr ''v=0'')])),
               (''fromId'', Some (JStr ''loyw3v5nk2j5x9q0c'')),
               (''cameraName'', Some (JStr ''Hall''))])]"
proof -
  let ?e = "Message 3 1700000000456 ''0.9x8c7v6b5n4'' (Inr (ex_offer ''loyw3v284fzyo82mv''))"
  have h1: "conns ex_state 3 = Some \<lparr>clientId = Some ''loyw3v5nk2j5x9q0c'', closed = False\<rparr>"
    by (simp add: ex_state_eq)
  have h2: "\<not> closed \<lparr>clientId = Some ''loyw3v5nk2j5x9q0c'', closed = False\<rparr>"
    by simp
  have h3: "js_prop (ex_offer ''loyw3v284fzyo82mv'') ''type'' = Some (JStr ''offer'')"
    by (simp add: ex_offer_def)
  have h4: "''offer'' \<in> {''offer'', ''answer'', ''ice-candidate''}"
    by simp
  have h5: "clients_get (clients (srv ex_state)) (js_prop (ex_offer ''loyw3v284fzyo82mv'') ''targetId'')
       = Some \<lparr>id_c = ''loyw3v284fzyo82mv'', role = Some (JStr ''monitor''),
                name = JStr ''Unknown'', ws = 2\<rparr>"
    by (simp add: ex_state_eq ex_offer_def)
  have p: "printable (js_prop (ex_offer ''loyw3v284fzyo82mv'') ''fromId'')"
    by (simp add: ex_offer_def)
  then have h6: "''offer'' = ''ice-candidate'' \<or> printable (js_prop (ex_offer ''loyw3v284fzyo82mv'') ''fromId'')"
    by simp
  have st: "step ex_state ?e = Next (ex_then ?e)"
    by (simp add: ex_then_def ex_state_eq eval_defs)
  from forward_to_present_target [OF h1 h2 h3 h4 h5 h6, of 1700000000456 "''0.9x8c7v6b5n4''"] st
  obtain m where "outbox (srv (ex_then ?e)) = outbox (srv ex_state) @ [(2, m)]"
    by auto
  then have "length (sent_since ex_state (ex_then ?e)) = 1"
    by (simp add: sent_since_def)
  moreover have "sent_since ex_state (ex_then ?e)
       = [(2, [(''type'', Some (JStr ''offer'')),
               (''offer'', Some (JObj [(''type'', JStr ''offer''), (''sdp'', JStr ''v=0'')])),
               (''fromId'', Some (JStr ''loyw3v5nk2j5x9q0c'')),
               (''cameraName'', Some (JStr ''Hall''))])]"
    by (simp add: ex_then_def ex_state_eq eval_defs)
  ultimately show ?thesis
    using h1 h3 p h5 st by simp
qed

subsection \<open>Claim C6\<close>

text \<open>
  C6. An \<^verbatim>\<open>offer\<close>, \<^verbatim>\<open>answer\<close> or \<^verbatim>\<open>ice-candidate\<close> message whose \<^verbatim>\<open>targetId\<close> is not a key
  of the Registry makes the server send nothing (no forward, and no error or reply to
  the sender) and leaves the Registry and every connection as they were, the sender's
  still open. The handler returns; the only possible trace is a TypeError in the
  server's own error log, when the log line of \<^verbatim>\<open>offer\<close> or \<^verbatim>\<open>answer\<close> could not print
  \<^verbatim>\<open>fromId\<close> or \<^verbatim>\<open>targetId\<close>.
\<close>

theorem forward_to_absent_target:
  assumes "conns s w = Some c" and "\<not> closed c"
    and "js_prop msg ''type'' = Some (JStr t)"
    and "t \<in> {''offer'', ''answer'', ''ice-candidate''}"
    and "clients_get (clients (srv s)) (js_prop msg ''targetId'') = None"
  shows "\<exists>s'. step s (Message w now rnd (Inr msg)) = Next s'
       \<and> outbox (srv s') = outbox (srv s)
       \<and> clients (srv s') = clients (srv s)
       \<and> conns s' = conns s
       \<and> errlog (srv s') = errlog (srv s) @
            (if t \<noteq> ''ice-candidate'' \<and> \<not> forward_log_ok msg then [TypeError] else [])"
proof -
  define s' where "s' = \<lparr>srv = snd (on_message w now rnd (Inr msg) (clientId c, srv s)),
      conns = (conns s)(w \<mapsto> c\<lparr>clientId := fst (on_message w now rnd (Inr msg) (clientId c, srv s))\<rparr>)\<rparr>"
  have st: "step s (Message w now rnd (Inr msg)) = Next s'"
    unfolding s'_def using assms(1,2) by (rule step_Message)
  from assms(4) have t: "t \<noteq> ''register''" by auto
  note om = on_message_forward [OF assms(3) t, of w now rnd "clientId c" "srv s"]
  have "conns s' = conns s"
    using assms(1) by (simp add: s'_def om fun_upd_idem)
  moreover have "srv s' = (srv s)\<lparr>errlog := errlog (srv s) @
      (if t \<noteq> ''ice-candidate'' \<and> \<not> forward_log_ok msg then [TypeError] else [])\<rparr>"
    using assms(4) forward_miss [OF assms(5)] by (auto simp: s'_def om console_error_def)
  ultimately show ?thesis using st by (intro exI [of _ s']) simp
qed

theorem forward_to_absent_target_witness:
  "conns ex_state 3 = Some \<lparr>clientId = Some ''loyw3v5nk2j5x9q0c'', closed = False\<rparr>
   \<and> js_prop (ex_offer ''nobody'') ''type'' = Some (JStr ''offer'')
   \<and> clients_get (clients (srv ex_state)) (js_prop (ex_offer ''nobody'') ''targetId'') = None
   \<and> forward_log_ok (ex_offer ''nobody'')
   \<and> step ex_state (Message 3 1700000000456 ''0.9x8c7v6b5n4'' (Inr (ex_offer ''nobody'')))
       = Next (ex_then (Message 3 1700000000456 ''0.9x8c7v6b5n4'' (Inr (ex_offer ''nobody''))))
   \<and> srv (ex_then (Message 3 1700000000456 ''0.9x8c7v6b5n4'' (Inr (ex_offer ''nobody'')))) = srv ex_state
   \<and> conns (ex_then (Message 3 1700000000456 ''0.9x8c7v6b5n4'' (Inr (ex_offer ''nobody'')))) = conns ex_state"
proof -
  let ?e = "Message 3 1700000000456 ''0.9x8c7v6b5n4'' (Inr (ex_offer ''nobody''))"
  have h1: "conns ex_state 3 = Some \<lparr>clientId = Some ''loyw3v5nk2j5x9q0c'', closed = False\<rparr>"
    by (simp add: ex_state_eq)
  have h2: "\<not> closed \<lparr>clientId = Some ''loyw3v5nk2j5x9q0c'', closed = False\<rparr>"
    by simp
  have h3: "js_prop (ex_offer ''nobody'') ''type'' = Some (JStr ''offer'')"
    by (simp add: ex_offer_def)
  have h4: "''offer'' \<in> {''offer'', ''answer'', ''ice-candidate''}"
    by simp
  have h5: "clients_get (clients (srv ex_state)) (js_prop (ex_offer ''nobody'') ''targetId'') = None"
    by (simp add: ex_state_eq ex_offer_def)
  have ok: "forward_log_ok (ex_offer ''nobody'')"
    by (simp add: forward_log_ok_def ex_offer_def)
  have st: "step ex_state ?e = Next (ex_then ?e)"
    by (simp add: ex_then_def ex_state_eq eval_defs)
  from forward_to_absent_target [OF h1 h2 h3 h4 h5, of 1700000000456 "''0.9x8c7v6b5n4''"] st ok
  have same: "srv (ex_then ?e) = srv ex_state" "conns (ex_then ?e) = conns ex_state"
    by auto
  show ?thesis
    by (intro conjI) (rule h1 h3 h5 ok st same)+
qed

subsection \<open>Claim C7\<close>



subsection \<open>Claim C8\<close>

text \<open>
  C8. When a connection closes without ever having completed a \<^verbatim>\<open>register\<close> message (it
  was never sent a \<^verbatim>\<open>registered\<close> reply), the handler returns, the server sends nothing
  and does not touch the Registry: the server state is identical before and after the
  close event.
\<close>

theorem close_unregistered_changes_nothing:
  assumes "reachable s"
    and "conns s w = Some c" and "\<not> closed c"
    and "\<forall>k. \<not> issued s w k"
  shows "step s (Close w) = Next (s\<lparr>conns := (conns s)(w \<mapsto> c\<lparr>closed := True\<rparr>)\<rparr>)"
proof -
  from assms(1) have "inv_conn s" by (simp add: reach_invs)
  with assms(2,4) have "clientId c = None"
    by (cases "clientId c") (auto simp: inv_conn_def)
  then have "on_close (clientId c) (srv s) = Inr (srv s)"
    by (simp add: on_close_def)
  with assms(2,3) show ?thesis by simp
qed

theorem close_unregistered_changes_nothing_witness:
  "reachable ex_state
   \<and> conns ex_state 4 = Some \<lparr>clientId = None, closed = False\<rparr>
   \<and> map fst (outbox (srv ex_state)) = [2, 3, 3]
   \<and> step ex_state (Close 4)
       = Next (ex_state\<lparr>conns := (conns ex_state)(4 \<mapsto> \<lparr>clientId = None, closed = True\<rparr>)\<rparr>)
   \<and> srv (ex_state\<lparr>conns := (conns ex_state)(4 \<mapsto> \<lparr>clientId = None, closed = True\<rparr>)\<rparr>) = srv ex_state"
proof -
  have h2: "conns ex_state 4 = Some \<lparr>clientId = None, closed = False\<rparr>"
    by (simp add: ex_state_eq)
  have h3: "\<not> closed \<lparr>clientId = None, closed = False\<rparr>"
    by simp
  have h4: "\<forall>k. \<not> issued ex_state 4 k"
    by (simp add: issued_def ex_state_eq)
  have h5: "map fst (outbox (srv ex_state)) = [2, 3, 3]"
    by (simp add: ex_state_eq)
  from close_unregistered_changes_nothing [OF reachable_ex_state h2 h3 h4]
  have st: "step ex_state (Close 4)
       = Next (ex_state\<lparr>conns := (conns ex_state)(4 \<mapsto> \<lparr>clientId = None, closed = True\<rparr>)\<rparr>)"
    by simp
  have same: "srv (ex_state\<lparr>conns := (conns ex_state)(4 \<mapsto> \<lparr>clientId = None, closed = True\<rparr>)\<rparr>) = srv ex_state"
    by simp
  show ?thesis
    by (intro conjI) (rule reachable_ex_state h2 h5 st same)+
qed

subsection \<open>Claim C9\<close>

text \<open>
  C9. A frame that \<^verbatim>\<open>JSON.parse\<close> rejects, a frame that parses to something other than an
  object, and a parsed message whose \<^verbatim>\<open>type\<close> is none of \<^verbatim>\<open>register\<close>, \<^verbatim>\<open>offer\<close>,
  \<^verbatim>\<open>answer\<close>, \<^verbatim>\<open>ice-candidate\<close> make the server send nothing and leave the Registry and
  every connection as they were, the sender's still open; the handler returns. An
  exception (from the parser, or from reading \<^verbatim>\<open>type\<close> of \<^verbatim>\<open>null\<close>) is caught and logged.
\<close>

theorem malformed_or_unknown_ignored:
  assumes "conns s w = Some c" and "\<not> closed c"
    and "\<forall>msg. data = Inr msg \<longrightarrow>
           js_prop msg ''type'' \<notin> {Some (JStr ''register''), Some (JStr ''offer''),
                                    Some (JStr ''answer''), Some (JStr ''ice-candidate'')}"
  shows "\<exists>s'. step s (Message w now rnd data) = Next s'
       \<and> outbox (srv s') = outbox (srv s)
       \<and> clients (srv s') = clients (srv s)
       \<and> conns s' = conns s
       \<and> errlog (srv s') = errlog (srv s) @
            (case data of Inl e \<Rightarrow> [e] | Inr msg \<Rightarrow> if msg = JNull then [TypeError] else [])"
proof -
  define s' where "s' = \<lparr>srv = snd (on_message w now rnd data (clientId c, srv s)),
      conns = (conns s)(w \<mapsto> c\<lparr>clientId := fst (on_message w now rnd data (clientId c, srv s))\<rparr>)\<rparr>"
  have st: "step s (Message w now rnd data) = Next s'"
    unfolding s'_def using assms(1,2) by (rule step_Message)
  have om: "on_message w now rnd data (clientId c, srv s) =
      (clientId c, (srv s)\<lparr>errlog := errlog (srv s) @
         (case data of Inl e \<Rightarrow> [e] | Inr msg \<Rightarrow> if msg = JNull then [TypeError] else [])\<rparr>)"
    using assms(3) by (cases data) (auto simp: on_message_def dispatch_def console_error_def)
  have "conns s' = conns s"
    using assms(1) by (simp add: s'_def om fun_upd_idem)
  with st show ?thesis by (intro exI [of _ s']) (simp add: s'_def om)
qed

theorem malformed_or_unknown_ignored_witness:
  "conns ex_state 4 = Some \<lparr>clientId = None, closed = False\<rparr>
   \<and> js_prop (JObj [(''type'', JStr ''ping'')]) ''type'' \<notin>
        {Some (JStr ''register''), Some (JStr ''offer''), Some (JStr ''answer''), Some (JStr ''ice-candidate'')}
   \<and> step ex_state (Message 4 1700000000789 ''0.b3n8m1q2w3e'' (Inr (JObj [(''type'', JStr ''ping'')])))
       = Next ex_state
   \<and> srv (ex_then (Message 4 1700000000789 ''0.b3n8m1q2w3e'' (Inl SyntaxError)))
       = (srv ex_state)\<lparr>errlog := [SyntaxError]\<rparr>
   \<and> conns (ex_then (Message 4 1700000000789 ''0.b3n8m1q2w3e'' (Inl SyntaxError))) = conns ex_state
   \<and> srv (ex_then (Message 4 1700000000789 ''0.b3n8m1q2w3e'' (Inr JNull)))
       = (srv ex_state)\<lparr>errlog := [TypeError]\<rparr>
   \<and> conns (ex_then (Message 4 1700000000789 ''0.b3n8m1q2w3e'' (Inr JNull))) = conns ex_state"
proof -
  let ?d = "Inr (JObj [(''type'', JStr ''ping'')]) :: error + json"
  have h1: "conns ex_state 4 = Some \<lparr>clientId = None, closed = False\<rparr>"
    by (simp add: ex_state_eq)
  have h2: "\<not> closed \<lparr>clientId = None, closed = False\<rparr>"
    by simp
  have h3: "\<forall>msg. d = Inr msg \<longrightarrow>
      js_prop msg ''type'' \<notin>
        {Some (JStr ''register''), Some (JStr ''offer''), Some (JStr ''answer''), Some (JStr ''ice-candidate'')}"
    if "d = ?d \<or> d = Inl SyntaxError \<or> d = Inr JNull" for d :: "error + json"
    using that by auto
  have p: "js_prop (JObj [(''type'', JStr ''ping'')]) ''type'' \<notin>
        {Some (JStr ''register''), Some (JStr ''offer''), Some (JStr ''answer''), Some (JStr ''ice-candidate'')}"
    by simp
  have st: "step ex_state (Message 4 1700000000789 ''0.b3n8m1q2w3e'' d)
      = Next (ex_then (Message 4 1700000000789 ''0.b3n8m1q2w3e'' d))" for d
    using h1 by (simp add: ex_then_def unrestricted_def Let_def)
  from malformed_or_unknown_ignored [OF h1 h2 h3, of ?d 1700000000789 "''0.b3n8m1q2w3e''"]
    st [of ?d] h1
  have a: "step ex_state (Message 4 1700000000789 ''0.b3n8m1q2w3e'' ?d) = Next ex_state"
    by auto
  from malformed_or_unknown_ignored [OF h1 h2 h3, of "Inl SyntaxError" 1700000000789 "''0.b3n8m1q2w3e''"]
    st [of "Inl SyntaxError"]
  have b: "srv (ex_then (Message 4 1700000000789 ''0.b3n8m1q2w3e'' (Inl SyntaxError)))
       = (srv ex_state)\<lparr>errlog := [SyntaxError]\<rparr>"
    "conns (ex_then (Message 4 1700000000789 ''0.b3n8m1q2w3e'' (Inl SyntaxError))) = conns ex_state"
    by (auto simp: ex_state_eq)
  from malformed_or_unknown_ignored [OF h1 h2 h3, of "Inr JNull" 1700000000789 "''0.b3n8m1q2w3e''"]
    st [of "Inr JNull"]
  have c: "srv (ex_then (Message 4 1700000000789 ''0.b3n8m1q2w3e'' (Inr JNull)))
       = (srv ex_state)\<lparr>errlog := [TypeError]\<rparr>"
    "conns (ex_then (Message 4 1700000000789 ''0.b3n8m1q2w3e'' (Inr JNull))) = conns ex_state"
    by (auto simp: ex_state_eq)
  show ?thesis
    by (intro conjI) (rule h1 p a b c)+
qed

subsection \<open>Claim C10\<close>

text \<open>
  C10. The claim: a \<^verbatim>\<open>register\<close> message whose \<^verbatim>\<open>role\<close> is outside \<^verbatim>\<open>camera\<close> and \<^verbatim>\<open>monitor\<close>
  still creates an entry and is answered, no \<^verbatim>\<open>request-offer\<close> is sent, and on the later
  close of that connection nothing is sent and the entry is removed. The code at a
  registration on socket 4 whose \<^verbatim>\<open>role\<close> is the value \<^verbatim>\<open>{"toString":1}\<close>: the entry is
  created with that role and \<^verbatim>\<open>registered{id}\<close> is the only message sent (the log line
  then throws and the handler logs the TypeError); when the socket closes, the
  \<^verbatim>\<open>[DISCONNECT]\<close> log line throws while converting \<^verbatim>\<open>client.role\<close>, before
  \<^verbatim>\<open>clients.delete\<close>: the exception escapes the handler and the entry is not removed.
\<close>

theorem unprintable_role_entry_not_removed:
  "conns ex_state 4 = Some \<lparr>clientId = None, closed = False\<rparr>
   \<and> js_prop ex_register_unprintable ''type'' = Some (JStr ''register'')
   \<and> js_prop ex_register_unprintable ''role'' = Some (JObj [(''toString'', JNum (Finite 1))])
   \<and> step ex_state (Message 4 1700000000789 ''0.b3n8m1q2w3e'' (Inr ex_register_unprintable))
       = Next (ex_then (Message 4 1700000000789 ''0.b3n8m1q2w3e'' (Inr ex_register_unprintable)))
   \<and> sent_since ex_state (ex_then (Message 4 1700000000789 ''0.b3n8m1q2w3e'' (Inr ex_register_unprintable)))
       = [(4, registered_msg ''loyw3vo5b3n8m1q2w'')]
   \<and> errlog (srv (ex_then (Message 4 1700000000789 ''0.b3n8m1q2w3e'' (Inr ex_register_unprintable))))
       = [TypeError]
   \<and> conns (ex_then (Message 4 1700000000789 ''0.b3n8m1q2w3e'' (Inr ex_register_unprintable))) 4
       = Some \<lparr>clientId = Some ''loyw3vo5b3n8m1q2w'', closed = False\<rparr>
   \<and> map_of (clients (srv (ex_then (Message 4 1700000000789 ''0.b3n8m1q2w3e'' (Inr ex_register_unprintable)))))
        ''loyw3vo5b3n8m1q2w''
       = Some \<lparr>id_c = ''loyw3vo5b3n8m1q2w'', role = Some (JObj [(''toString'', JNum (Finite 1))]),
                name = JStr ''Unknown'', ws = 4\<rparr>
   \<and> step (ex_then (Message 4 1700000000789 ''0.b3n8m1q2w3e'' (Inr ex_register_unprintable))) (Close 4)
       = Uncaught TypeError"
  by (simp add: ex_then_def ex_state_eq eval_defs)

text \<open>
  What the code does for every role outside \<^verbatim>\<open>camera\<close> and \<^verbatim>\<open>monitor\<close>: the entry is stored
  with the role as given, \<^verbatim>\<open>registered{id}\<close> is the only message sent, and the connection
  is registered. When the connection closes later, its entry still being the one with
  that role: if the role converts to a string, nothing is sent and the entry is removed;
  if it does not, the handler throws and removes nothing.
\<close>

lemma register_unvalidated_role:
  assumes "conns s w = Some c" and "\<not> closed c"
    and "js_prop msg ''type'' = Some (JStr ''register'')"
    and "js_prop msg ''role'' \<notin> {Some (JStr ''camera''), Some (JStr ''monitor'')}"
  shows "\<exists>s'. step s (Message w now rnd (Inr msg)) = Next s'
       \<and> map_of (clients (srv s')) (generateId now rnd) =
           Some \<lparr>id_c = generateId now rnd, role = js_prop msg ''role'',
                  name = or_else (js_prop msg ''name'') (JStr ''Unknown''), ws = w\<rparr>
       \<and> outbox (srv s') = outbox (srv s) @ [(w, registered_msg (generateId now rnd))]
       \<and> conns s' w = Some \<lparr>clientId = Some (generateId now rnd), closed = False\<rparr>
       \<and> (\<forall>t cl. conns t w = conns s' w
              \<and> map_of (clients (srv t)) (generateId now rnd) = Some cl
              \<and> role cl = js_prop msg ''role''
            \<longrightarrow> (if printable (js_prop msg ''role'')
                 then \<exists>t'. step t (Close w) = Next t'
                        \<and> outbox (srv t') = outbox (srv t)
                        \<and> clients (srv t') = AList.delete (generateId now rnd) (clients (srv t))
                        \<and> map_of (clients (srv t')) (generateId now rnd) = None
                 else step t (Close w) = Uncaught TypeError))"
proof -
  let ?g = "generateId now rnd"
  define s' where "s' = \<lparr>srv = snd (on_message w now rnd (Inr msg) (clientId c, srv s)),
      conns = (conns s)(w \<mapsto> c\<lparr>clientId := Some ?g\<rparr>)\<rparr>"
  have st: "step s (Message w now rnd (Inr msg)) = Next s'"
    unfolding s'_def using assms(1-3) by (rule step_register)
  note om = on_message_register [OF assms(3), of w now rnd "clientId c" "srv s"]
  have entry: "map_of (clients (srv s')) ?g =
      Some \<lparr>id_c = ?g, role = js_prop msg ''role'',
             name = or_else (js_prop msg ''name'') (JStr ''Unknown''), ws = w\<rparr>"
    by (simp add: s'_def om AList.update_conv' mk_client_def)
  have out: "outbox (srv s') = outbox (srv s) @ [(w, registered_msg ?g)]"
    using assms(4) by (simp add: s'_def om)
  have conn: "conns s' w = Some \<lparr>clientId = Some ?g, closed = False\<rparr>"
    using assms(2) by (cases c) (simp add: s'_def)
  have later: "if printable (js_prop msg ''role'')
      then \<exists>t'. step t (Close w) = Next t'
             \<and> outbox (srv t') = outbox (srv t)
             \<and> clients (srv t') = AList.delete ?g (clients (srv t))
             \<and> map_of (clients (srv t')) ?g = None
      else step t (Close w) = Uncaught TypeError"
    if "conns t w = conns s' w" "map_of (clients (srv t)) ?g = Some cl" "role cl = js_prop msg ''role''"
    for t cl
  proof (cases "printable (js_prop msg ''role'')")
    case True
    with that(2,3) assms(4)
    have "on_close (Some ?g) (srv t) = Inr ((srv t)\<lparr>clients := AList.delete ?g (clients (srv t))\<rparr>)"
      by (simp add: on_close_eq generateId_nonempty)
    with that(1) conn have "step t (Close w) =
        Next \<lparr>srv = (srv t)\<lparr>clients := AList.delete ?g (clients (srv t))\<rparr>,
              conns = (conns t)(w \<mapsto> \<lparr>clientId = Some ?g, closed = True\<rparr>)\<rparr>"
      by simp
    with True show ?thesis by (simp add: AList.delete_conv')
  next
    case False
    with that(2,3) have "on_close (Some ?g) (srv t) = Inl TypeError"
      by (simp add: on_close_eq generateId_nonempty)
    with that(1) conn False show ?thesis by simp
  qed
  from st entry out conn later show ?thesis
    by (intro exI [of _ s']) blast
qed

lemma register_unvalidated_role_example:
  "conns ex_state 4 = Some \<lparr>clientId = None, closed = False\<rparr>
   \<and> js_prop (ex_register ''viewer'') ''type'' = Some (JStr ''register'')
   \<and> js_prop (ex_register ''viewer'') ''role'' = Some (JStr ''viewer'')
   \<and> step ex_state (Message 4 1700000000789 ''0.b3n8m1q2w3e'' (Inr (ex_register ''viewer'')))
       = Next (ex_then (Message 4 1700000000789 ''0.b3n8m1q2w3e'' (Inr (ex_register ''viewer''))))
   \<and> sent_since ex_state (ex_then (Message 4 1700000000789 ''0.b3n8m1q2w3e'' (Inr (ex_register ''viewer''))))
       = [(4, registered_msg ''loyw3vo5b3n8m1q2w'')]
   \<and> map_of (clients (srv (ex_then (Message 4 1700000000789 ''0.b3n8m1q2w3e'' (Inr (ex_register ''viewer''))))))
        ''loyw3vo5b3n8m1q2w''
       = Some \<lparr>id_c = ''loyw3vo5b3n8m1q2w'', role = Some (JStr ''viewer''), name = JStr ''Unknown'', ws = 4\<rparr>
   \<and> outbox (srv (run unrestricted ex_state
         [Message 4 1700000000789 ''0.b3n8m1q2w3e'' (Inr (ex_register ''viewer'')), Close 4]))
       = outbox (srv ex_state) @ [(4, registered_msg ''loyw3vo5b3n8m1q2w'')]
   \<and> map fst (clients (srv (run unrestricted ex_state
         [Message 4 1700000000789 ''0.b3n8m1q2w3e'' (Inr (ex_register ''viewer'')), Close 4])))
       = [''loyw3v284fzyo82mv'', ''loyw3v5nk2j5x9q0c'']"
  by (simp add: ex_then_def ex_state_eq eval_defs)

end
